theory Spec2Isabelle
  imports Complex_Main "HOL-Library.AList"
begin

section \<open>Values shared by the services\<close>

text \<open>
  The services exchange JSON. A decoded JSON document is a value of \<open>json\<close>; a Python
  \<open>dict\<close> is an association list in insertion order whose keys are distinct, read with
  \<open>map_of\<close> and written with \<open>AList.update\<close> (an existing key keeps its place and
  gets the new value, a new key goes to the end, as a Python \<open>dict\<close> does).
  Python's \<open>float\<close> results are taken as exact rationals: the model's arithmetic has no
  binary rounding error.
  Strings are lists of 8-bit characters, so the model covers text of code points below 256.
\<close>

datatype json =
    JNull
  | JBool bool
  | JNum rat
  | JStr string
  | JArr "json list"
  | JObj "(string \<times> json) list"

datatype py_exception = ValueError | AttributeError | TypeError

text \<open>\<open>d.get(key, default)\<close>\<close>

definition dict_get :: "('k \<times> 'v) list \<Rightarrow> 'k \<Rightarrow> 'v \<Rightarrow> 'v" where
  "dict_get d k dflt = (case map_of d k of None \<Rightarrow> dflt | Some v \<Rightarrow> v)"

subsection \<open>Characters and the string methods the code calls\<close>

text \<open>\<open>str.isspace\<close> on one character, which is also what the regular expression
  \<open>\s\<close> matches: code points 9 to 13, 28 to 32, 133 and 160.\<close>

definition isspace :: "char \<Rightarrow> bool" where
  "isspace c = (let n = (of_char c :: nat) in
     (9 \<le> n \<and> n \<le> 13) \<or> (28 \<le> n \<and> n \<le> 32) \<or> n = 133 \<or> n = 160)"

text \<open>The regular expression \<open>\d\<close>: below 256 only the ASCII digits.\<close>

definition isdigit :: "char \<Rightarrow> bool" where
  "isdigit c = (let n = (of_char c :: nat) in 48 \<le> n \<and> n \<le> 57)"

text \<open>\<open>str.lower\<close> on one character: \<open>A\<close> to \<open>Z\<close> and the Latin-1 capitals
  (192 to 222 except the multiplication sign 215) move up by 32.\<close>

definition lower_char :: "char \<Rightarrow> char" where
  "lower_char c = (let n = (of_char c :: nat) in
     if (65 \<le> n \<and> n \<le> 90) \<or> (192 \<le> n \<and> n \<le> 222 \<and> n \<noteq> 215)
     then char_of (n + 32) else c)"

definition lower :: "string \<Rightarrow> string" where
  "lower s = map lower_char s"

text \<open>\<open>str.strip()\<close>\<close>

definition strip :: "string \<Rightarrow> string" where
  "strip s = rev (dropWhile isspace (rev (dropWhile isspace s)))"

text \<open>\<open>s.split(" - ")\<close>: the text between the occurrences of the separator, found left
  to right without overlap. \<open>cur\<close> holds, reversed, the characters of the current piece.\<close>

fun split_from :: "string \<Rightarrow> string \<Rightarrow> string list" where
  "split_from cur [] = [rev cur]"
| "split_from cur (c # cs) =
     (if take 3 (c # cs) = '' - '' then rev cur # split_from [] (drop 2 cs)
      else split_from (c # cur) cs)"

definition split_sep :: "string \<Rightarrow> string list" where
  "split_sep s = split_from [] s"

section \<open>Experience calculation (experience_calculator.py)\<close>

subsection \<open>Dates\<close>

text \<open>
  A \<open>datetime\<close>: the calendar month, numbered \<open>12 * year + (month - 1)\<close>, and the time
  elapsed since 00:00 on day 1 of that month, in microseconds. Python orders datetimes by
  year, month, day and time of day, which is the lexicographic order of the two fields.
\<close>

record datetime =
  dt_months :: int
  dt_rest :: nat

definition dt_year :: "datetime \<Rightarrow> int" where
  "dt_year d = dt_months d div 12"

definition dt_month :: "datetime \<Rightarrow> int" where
  "dt_month d = dt_months d mod 12 + 1"

definition mk_datetime :: "int \<Rightarrow> int \<Rightarrow> nat \<Rightarrow> datetime" where
  "mk_datetime y m r = \<lparr>dt_months = 12 * y + (m - 1), dt_rest = r\<rparr>"

definition dt_less :: "datetime \<Rightarrow> datetime \<Rightarrow> bool" where
  "dt_less a b = (dt_months a < dt_months b \<or> (dt_months a = dt_months b \<and> dt_rest a < dt_rest b))"

text \<open>
  \<open>datetime.strptime(s, "%B %Y")\<close>. The format compiles to the regular expression
  \<open>(?P<B>january|...|december)\s+(?P<Y>\d\d\d\d)\<close>, matched at the start of \<open>s\<close>
  ignoring case; text left over after the match, and year 0, raise \<open>ValueError\<close>
  (\<open>None\<close> here). No month name is the beginning of another, so the order in which the
  names are tried does not matter. The result is 00:00 on day 1 of the month.
\<close>

definition f_month :: "string list" where
  "f_month = [''january'', ''february'', ''march'', ''april'', ''may'', ''june'', ''july'',
     ''august'', ''september'', ''october'', ''november'', ''december'']"

fun match_month :: "int \<Rightarrow> string list \<Rightarrow> string \<Rightarrow> (int \<times> string) option" where
  "match_month i [] s = None"
| "match_month i (nm # nms) s =
     (if lower (take (length nm) s) = nm then Some (i, drop (length nm) s)
      else match_month (i + 1) nms s)"

definition digit_val :: "char \<Rightarrow> int" where
  "digit_val c = int (of_char c) - 48"

definition int_of_digits :: "string \<Rightarrow> int" where
  "int_of_digits ds = foldl (\<lambda>a c. 10 * a + digit_val c) 0 ds"

definition strptime_BY :: "string \<Rightarrow> datetime option" where
  "strptime_BY s =
     (case match_month 1 f_month s of
        None \<Rightarrow> None
      | Some (month, rest) \<Rightarrow>
          (let digits = dropWhile isspace rest in
           if takeWhile isspace rest = [] then None
           else if length digits \<noteq> 4 \<or> \<not> list_all isdigit digits then None
           else if int_of_digits digits = 0 then None
           else Some (mk_datetime (int_of_digits digits) month 0)))"

subsection \<open>\<open>relativedelta(dt1, dt2)\<close> of dateutil\<close>

record relativedelta =
  years :: int
  months :: int

text \<open>\<open>_set_months\<close>: the signed month count as years and months of the same sign.\<close>

definition set_months :: "int \<Rightarrow> relativedelta" where
  "set_months m =
     (if \<bar>m\<bar> > 11 then
        (let s = sgn m in \<lparr>years = ((m * s) div 12) * s, months = ((m * s) mod 12) * s\<rparr>)
      else \<lparr>years = 0, months = m\<rparr>)"

text \<open>\<open>dt + delta\<close> for a delta of years and months. The code only adds to a start date
  made by \<open>strptime\<close>, which is on day 1, so the day is never clipped to a shorter month.\<close>

definition radd :: "datetime \<Rightarrow> relativedelta \<Rightarrow> datetime" where
  "radd dt rd =
     (let year = dt_year dt + years rd; month = dt_month dt + months rd in
      if month > 12 then mk_datetime (year + 1) (month - 12) (dt_rest dt)
      else if month < 1 then mk_datetime (year - 1) (month + 12) (dt_rest dt)
      else mk_datetime year month (dt_rest dt))"

text \<open>The constructor's loop: the month count moves towards \<open>dt1\<close> while \<open>dt2\<close> plus the
  count lies beyond it (\<open>up\<close> is the case \<open>dt1 < dt2\<close>).\<close>

function adjust :: "datetime \<Rightarrow> datetime \<Rightarrow> bool \<Rightarrow> int \<Rightarrow> int" where
  "adjust dt1 dt2 up m =
     (let dtm = radd dt2 (set_months m) in
      if up then (if dt_less dtm dt1 then adjust dt1 dt2 up (m + 1) else m)
      else (if dt_less dt1 dtm then adjust dt1 dt2 up (m - 1) else m))"
  by pat_completeness auto

lemma set_months_total: "12 * years (set_months m) + months (set_months m) = m"
proof -
  consider "\<bar>m\<bar> \<le> 11" | "m > 11" | "m < - 11" by linarith
  then show ?thesis
  proof cases
    case 1 then show ?thesis by (simp add: set_months_def)
  next
    case 2
    have "12 * (m div 12) + m mod 12 = m" by simp
    with 2 show ?thesis by (simp add: set_months_def Let_def)
  next
    case 3
    have "- (12 * (- m div 12)) - (- m) mod 12 = m"
      using mult_div_mod_eq [of 12 "- m"] by linarith
    with 3 show ?thesis by (simp add: set_months_def Let_def)
  qed
qed

lemma radd_months: "dt_months (radd dt rd) = dt_months dt + (12 * years rd + months rd)"
  by (simp add: radd_def Let_def mk_datetime_def dt_year_def dt_month_def)

termination adjust
proof (relation "measure (\<lambda>(dt1, dt2, up, m).
         nat (if up then dt_months dt1 - dt_months dt2 - m + 1
              else dt_months dt2 + m - dt_months dt1 + 1))")
  show "wf (measure (\<lambda>(dt1, dt2, up, m).
         nat (if up then dt_months dt1 - dt_months dt2 - m + 1
              else dt_months dt2 + m - dt_months dt1 + 1)))" by simp
next
  fix dt1 dt2 :: datetime and up :: bool and m :: int and dtm
  assume "dtm = radd dt2 (set_months m)" "up" "dt_less dtm dt1"
  then have "dt_months dt2 + m \<le> dt_months dt1"
    by (auto simp: dt_less_def radd_months set_months_total)
  then show "((dt1, dt2, up, m + 1), (dt1, dt2, up, m)) \<in> measure (\<lambda>(dt1, dt2, up, m).
         nat (if up then dt_months dt1 - dt_months dt2 - m + 1
              else dt_months dt2 + m - dt_months dt1 + 1))" using \<open>up\<close> by simp
next
  fix dt1 dt2 :: datetime and up :: bool and m :: int and dtm
  assume "dtm = radd dt2 (set_months m)" "\<not> up" "dt_less dt1 dtm"
  then have "dt_months dt1 \<le> dt_months dt2 + m"
    by (auto simp: dt_less_def radd_months set_months_total)
  then show "((dt1, dt2, up, m - 1), (dt1, dt2, up, m)) \<in> measure (\<lambda>(dt1, dt2, up, m).
         nat (if up then dt_months dt1 - dt_months dt2 - m + 1
              else dt_months dt2 + m - dt_months dt1 + 1))" using \<open>\<not> up\<close> by simp
qed

declare adjust.simps [simp del]

text \<open>\<open>relativedelta(dt1, dt2)\<close>: the difference of the calendar months, adjusted by the
  loop, as years and months. Its days and smaller fields are not read by the code.\<close>

definition relativedelta_between :: "datetime \<Rightarrow> datetime \<Rightarrow> relativedelta" where
  "relativedelta_between dt1 dt2 =
     set_months (adjust dt1 dt2 (dt_less dt1 dt2)
       ((dt_year dt1 - dt_year dt2) * 12 + (dt_month dt1 - dt_month dt2)))"

subsection \<open>\<open>calculate_experience\<close>\<close>

text \<open>\<open>round(x, 1)\<close>: to one decimal place, a tie going to the even last digit.\<close>

definition round1 :: "rat \<Rightarrow> rat" where
  "round1 x =
     (let t = x * 10; f = \<lfloor>t\<rfloor>; d = t - of_int f in
      of_int (if d < 1 / 2 then f else if 1 / 2 < d then f + 1
              else if even f then f else f + 1) / 10)"

text \<open>Line 23: \<open>job_experience.years + (job_experience.months / 12)\<close>\<close>

definition experience_years :: "relativedelta \<Rightarrow> rat" where
  "experience_years rd = of_int (years rd) + of_int (months rd) / 12"

text \<open>
  Lines 17 to 19 of the \<open>try\<close> block, for one record: the start and the end of the
  range. \<open>now\<close> is what \<open>datetime.now()\<close> returns while this record is processed; it is
  read only when the end of the range is \<open>present\<close> or \<open>current\<close>. A value that is not a
  string has no \<open>split\<close>: that is an \<open>AttributeError\<close>, which the \<open>except ValueError\<close>
  of the loop does not catch.
\<close>

definition parse_dates :: "datetime \<Rightarrow> json \<Rightarrow> py_exception + (datetime \<times> datetime)" where
  "parse_dates now employment_dates =
     (case employment_dates of
        JStr s \<Rightarrow>
          (case split_sep s of
             [start_date_str, end_date_str] \<Rightarrow>
               (case strptime_BY start_date_str of
                  None \<Rightarrow> Inl ValueError
                | Some start_date \<Rightarrow>
                    (case (if lower end_date_str \<in> set [''present'', ''current''] then Some now
                           else strptime_BY end_date_str) of
                       None \<Rightarrow> Inl ValueError
                     | Some end_date \<Rightarrow> Inr (start_date, end_date)))
           | _ \<Rightarrow> Inl ValueError)
      | _ \<Rightarrow> Inl AttributeError)"

text \<open>Lines 17 to 23: the parse, then the duration in years.\<close>

definition job_experience :: "datetime \<Rightarrow> json \<Rightarrow> py_exception + rat" where
  "job_experience now employment_dates =
     (case parse_dates now employment_dates of
        Inl e \<Rightarrow> Inl e
      | Inr (start_date, end_date) \<Rightarrow>
          Inr (experience_years (relativedelta_between end_date start_date)))"

type_synonym job = "(string \<times> json) list"

definition employment_dates :: "job \<Rightarrow> json" where
  "employment_dates job = dict_get job ''employment_dates'' (JStr [])"

text \<open>
  The loop of lines 12 to 37 over the records, each paired with the clock reading taken
  while it is processed, and lines 40 to 42. A \<open>ValueError\<close> skips the record; any other
  exception leaves the function.
\<close>

fun calculate_experience_loop ::
  "(datetime \<times> job) list \<Rightarrow> rat \<Rightarrow> job list \<Rightarrow> py_exception + (rat \<times> job list)" where
  "calculate_experience_loop [] total_years modified_work_experience =
     Inr (round1 total_years, modified_work_experience)"
| "calculate_experience_loop ((now, job) # rest) total_years modified_work_experience =
     (case job_experience now (employment_dates job) of
        Inr y \<Rightarrow>
          calculate_experience_loop rest (total_years + y)
            (modified_work_experience @
               [AList.update ''experience_years'' (JNum (round1 y)) job])
      | Inl ValueError \<Rightarrow> calculate_experience_loop rest total_years modified_work_experience
      | Inl e \<Rightarrow> Inl e)"

definition calculate_experience ::
  "(datetime \<times> job) list \<Rightarrow> py_exception + (rat \<times> job list)" where
  "calculate_experience work_experience = calculate_experience_loop work_experience 0 []"


subsection \<open>Well-formed date ranges\<close>

text \<open>The texts the date claims speak about: \<open>calendar.month_name\<close>, a year of four
  decimal digits, and the two joined as \<open><Month> <Year> - <Month> <Year>\<close>.\<close>

definition month_name :: "string list" where
  "month_name = [''January'', ''February'', ''March'', ''April'', ''May'', ''June'', ''July'',
     ''August'', ''September'', ''October'', ''November'', ''December'']"

definition digit_char :: "nat \<Rightarrow> char" where
  "digit_char d = char_of (48 + d)"

definition year4 :: "nat \<Rightarrow> string" where
  "year4 y = map digit_char [y div 1000 mod 10, y div 100 mod 10, y div 10 mod 10, y mod 10]"

definition month_year :: "nat \<Rightarrow> nat \<Rightarrow> string" where
  "month_year m y = month_name ! (m - 1) @ '' '' @ year4 y"

definition date_range :: "nat \<Rightarrow> nat \<Rightarrow> nat \<Rightarrow> nat \<Rightarrow> string" where
  "date_range m1 y1 m2 y2 = month_year m1 y1 @ '' - '' @ month_year m2 y2"


text \<open>\<open>" - ".join(parts)\<close>\<close>

fun join_sep :: "string list \<Rightarrow> string" where
  "join_sep [] = []"
| "join_sep [x] = x"
| "join_sep (x # y # ys) = x @ '' - '' @ join_sep (y # ys)"


subsection \<open>What the claims about the aggregator speak about\<close>

text \<open>A record whose dates parse, its duration in years, and the record as the loop
  stores it; a record whose \<open>employment_dates\<close> is text, as the data model has it.\<close>

definition parsed :: "datetime \<times> job \<Rightarrow> bool" where
  "parsed r = (case job_experience (fst r) (employment_dates (snd r)) of
                 Inr y \<Rightarrow> True | Inl e \<Rightarrow> False)"

definition duration :: "datetime \<times> job \<Rightarrow> rat" where
  "duration r = (case job_experience (fst r) (employment_dates (snd r)) of
                   Inr y \<Rightarrow> y | Inl e \<Rightarrow> 0)"

definition with_experience :: "datetime \<times> job \<Rightarrow> job" where
  "with_experience r = AList.update ''experience_years'' (JNum (round1 (duration r))) (snd r)"


text \<open>The range of a record does not end before it starts.\<close>

definition ends_after_start :: "datetime \<times> job \<Rightarrow> bool" where
  "ends_after_start r =
     (case parse_dates (fst r) (employment_dates (snd r)) of
        Inr (start_date, end_date) \<Rightarrow> \<not> dt_less end_date start_date
      | Inl e \<Rightarrow> True)"

text \<open>The value stored under \<open>experience_years\<close> is a number that is not negative.\<close>

definition experience_nonneg :: "job \<Rightarrow> bool" where
  "experience_nonneg j =
     (case map_of j ''experience_years'' of Some (JNum y) \<Rightarrow> 0 \<le> y | _ \<Rightarrow> False)"

text \<open>
  The shapes of text the date claims name: a month name in any letter case, white space,
  four digits that are not all zero; and a range of two of these, or of one and the word
  \<open>present\<close> or \<open>current\<close> in any letter case.
\<close>

definition is_month_year :: "string \<Rightarrow> bool" where
  "is_month_year s =
     (\<exists>p ws ds. s = p @ ws @ ds \<and> lower p \<in> set f_month \<and> ws \<noteq> [] \<and> list_all isspace ws
        \<and> length ds = 4 \<and> list_all isdigit ds \<and> int_of_digits ds \<noteq> 0)"

definition is_ongoing :: "string \<Rightarrow> bool" where
  "is_ongoing e = (lower e = ''present'' \<or> lower e = ''current'')"

definition accepted_shape :: "string \<Rightarrow> bool" where
  "accepted_shape s =
     (\<exists>a b. s = a @ '' - '' @ b \<and> is_month_year a \<and> (is_ongoing b \<or> is_month_year b))"

section \<open>Matching (match.py)\<close>

subsection \<open>The scoring table and the matcher\<close>

definition MATCH_SCORES :: "(string \<times> rat) list" where
  "MATCH_SCORES = [(''Full match'', 1), (''Partial match'', 1 / 2), (''No match'', 0), (''Error'', 0)]"

text \<open>\<open>MATCH_SCORES.get(match_level, 0)\<close>: a list or an object cannot be a dictionary key
  (\<open>TypeError\<close>); any other value that is not one of the four texts gets the default.\<close>

definition item_score_of :: "json \<Rightarrow> py_exception + rat" where
  "item_score_of match_level =
     (case match_level of
        JStr s \<Rightarrow> Inr (dict_get MATCH_SCORES s 0)
      | JArr xs \<Rightarrow> Inl TypeError
      | JObj d \<Rightarrow> Inl TypeError
      | _ \<Rightarrow> Inr 0)"

text \<open>
  \<open>match_item\<close> asks the language model, which is outside the program: here it is a
  function of the number of calls made before in this request and of the item. It returns
  the decoded reply, or raises an \<open>HTTPException\<close> (every \<open>except\<close> branch of
  \<open>match_item\<close> raises one, with status 500); \<open>Inl\<close> holds its \<open>detail\<close>.
\<close>

type_synonym matcher = "nat \<Rightarrow> string \<Rightarrow> string + json"

text \<open>Lines 133 to 137: the entry written for an item whose match raised.\<close>

definition error_outcome :: "string \<Rightarrow> json" where
  "error_outcome detail =
     JObj [(''match_level'', JStr ''Error''),
           (''reason'', JStr (''Error during matching: '' @ detail)),
           (''evidence'', JStr [])]"

subsection \<open>The loops of \<open>unified_match_endpoint\<close>\<close>

text \<open>The counters the loops update, and the number of \<open>match_item\<close> calls made so far.\<close>

record tally =
  category_score :: rat
  category_items :: nat
  total_score :: rat
  total_items :: nat
  calls :: nat

text \<open>
  Lines 119 to 137, the loop over the items of one subcategory. \<open>results\<close> is the
  dictionary \<open>matching_results[category][subcategory]\<close>. A reply that is not an object has
  no \<open>get\<close> (\<open>AttributeError\<close>); neither that nor the \<open>TypeError\<close> of the table lookup is
  an \<open>HTTPException\<close>, so both leave the loop.
\<close>

fun score_items ::
  "matcher \<Rightarrow> string list \<Rightarrow> (string \<times> json) list \<Rightarrow> tally
     \<Rightarrow> py_exception + ((string \<times> json) list \<times> tally)" where
  "score_items match_item [] results t = Inr (results, t)"
| "score_items match_item (item # items) results t =
     (case match_item (calls t) item of
        Inl detail \<Rightarrow>
          score_items match_item items (AList.update item (error_outcome detail) results)
            (t\<lparr>calls := calls t + 1\<rparr>)
      | Inr match_data \<Rightarrow>
          (case match_data of
             JObj d \<Rightarrow>
               (case item_score_of (dict_get d ''match_level'' (JStr ''No match'')) of
                  Inl e \<Rightarrow> Inl e
                | Inr item_score \<Rightarrow>
                    score_items match_item items (AList.update item match_data results)
                      (t\<lparr>category_score := category_score t + item_score,
                         category_items := category_items t + 1,
                         total_score := total_score t + item_score,
                         total_items := total_items t + 1,
                         calls := calls t + 1\<rparr>))
           | _ \<Rightarrow> Inl AttributeError))"

text \<open>
  The requirements as the checks of lines 100 to 116 see them: a value is a dictionary or
  it is not, a value is a list or it is not. The items of a list are texts, as the
  job-description parser is asked to produce them.
\<close>

datatype items_value = Items "string list" | NotAList

datatype subcategories_value = Subcategories "(string \<times> items_value) list" | NotADict

text \<open>
  The \<open>detail\<close> of an error response: a fixed text, or a text built from \<open>str(e)\<close> of
  the exception caught, which is kept as the exception (for an \<open>HTTPException\<close>, its
  status and detail) since its wording belongs to Python and the web framework.
\<close>

datatype detail =
    Detail string
  | DuringMatching py_exception
  | ErrorOccurred nat string
  | ParsingNaturalQuery

datatype http_exception = HTTPException nat detail

datatype raised = RaisedHTTP http_exception | RaisedPy py_exception

text \<open>Line 116: \<open>f"Invalid items format in subcategory '{subcategory}'."\<close>\<close>

definition invalid_items :: "string \<Rightarrow> detail" where
  "invalid_items subcategory =
     Detail (''Invalid items format in subcategory '' @ [CHR 0x27] @ subcategory @ [CHR 0x27] @ ''.'')"

text \<open>Lines 113 to 137, the loop over the subcategories of one category; \<open>cat_results\<close>
  is the dictionary \<open>matching_results[category]\<close>.\<close>

fun score_subcategories ::
  "matcher \<Rightarrow> (string \<times> items_value) list \<Rightarrow> (string \<times> (string \<times> json) list) list \<Rightarrow> tally
     \<Rightarrow> raised + ((string \<times> (string \<times> json) list) list \<times> tally)" where
  "score_subcategories match_item [] cat_results t = Inr (cat_results, t)"
| "score_subcategories match_item ((subcategory, items) # rest) cat_results t =
     (case items of
        NotAList \<Rightarrow> Inl (RaisedHTTP (HTTPException 500 (invalid_items subcategory)))
      | Items xs \<Rightarrow>
          (case score_items match_item xs [] t of
             Inl e \<Rightarrow> Inl (RaisedPy e)
           | Inr (results, t') \<Rightarrow>
               score_subcategories match_item rest
                 (AList.update subcategory results cat_results) t'))"

record scoring =
  matching_results :: "(string \<times> (string \<times> (string \<times> json) list) list) list"
  category_scores :: "(string \<times> rat) list"
  overall :: tally

text \<open>Lines 104 to 141, the loop over the categories. A category whose value is not a
  dictionary is passed over (line 107); the counters of a category start at 0.\<close>

fun score_categories ::
  "matcher \<Rightarrow> (string \<times> subcategories_value) list \<Rightarrow> scoring \<Rightarrow> raised + scoring" where
  "score_categories match_item [] st = Inr st"
| "score_categories match_item ((category, subcategories) # rest) st =
     (case subcategories of
        NotADict \<Rightarrow> score_categories match_item rest st
      | Subcategories subs \<Rightarrow>
          (case score_subcategories match_item subs []
                  ((overall st)\<lparr>category_score := 0, category_items := 0\<rparr>) of
             Inl e \<Rightarrow> Inl e
           | Inr (cat_results, t) \<Rightarrow>
               score_categories match_item rest
                 \<lparr>matching_results = AList.update category cat_results (matching_results st),
                  category_scores =
                    (if category_items t > 0
                     then AList.update category (category_score t / of_nat (category_items t))
                            (category_scores st)
                     else category_scores st),
                  overall = t\<rparr>))"

subsection \<open>The endpoint\<close>

text \<open>Python's truth value of a decoded JSON value.\<close>

definition truthy :: "json \<Rightarrow> bool" where
  "truthy v = (case v of
      JNull \<Rightarrow> False | JBool b \<Rightarrow> b | JNum q \<Rightarrow> q \<noteq> 0 | JStr s \<Rightarrow> s \<noteq> []
    | JArr xs \<Rightarrow> xs \<noteq> [] | JObj d \<Rightarrow> d \<noteq> [])"

text \<open>\<open>job_description_details\<close>: a dictionary, or another value, of which only the
  truth value matters.\<close>

datatype details_value = Details "(string \<times> subcategories_value) list" | OtherValue bool

record response =
  message :: string
  results_tree :: "(string \<times> (string \<times> (string \<times> json) list) list) list"
  scores_by_category :: "(string \<times> rat) list"
  overall_score :: rat

text \<open>
  Lines 88 to 157, from the two values taken out of the request body. An \<open>HTTPException\<close>
  passes through the outer handler; any other exception becomes a 500 whose detail names
  it.
\<close>

definition unified_match_endpoint ::
  "matcher \<Rightarrow> details_value \<Rightarrow> json \<Rightarrow> http_exception + response" where
  "unified_match_endpoint match_item job_description_details resume_details =
     (if \<not> (case job_description_details of Details cats \<Rightarrow> cats \<noteq> [] | OtherValue b \<Rightarrow> b)
         \<or> \<not> truthy resume_details
      then Inl (HTTPException 400 (Detail ''Job description or resume data is missing.''))
      else
        (case job_description_details of
           OtherValue b \<Rightarrow>
             Inl (HTTPException 500 (Detail ''Job description details must be a dictionary.''))
         | Details cats \<Rightarrow>
             (case score_categories match_item cats
                     \<lparr>matching_results = [], category_scores = [],
                      overall = \<lparr>category_score = 0, category_items = 0,
                                 total_score = 0, total_items = 0, calls = 0\<rparr>\<rparr> of
                Inl (RaisedHTTP h) \<Rightarrow> Inl h
              | Inl (RaisedPy e) \<Rightarrow> Inl (HTTPException 500 (DuringMatching e))
              | Inr st \<Rightarrow>
                  Inr \<lparr>message = ''Matching completed successfully.'',
                       results_tree = matching_results st,
                       scores_by_category = category_scores st,
                       overall_score =
                         (if total_items (overall st) > 0
                          then total_score (overall st) / of_nat (total_items (overall st))
                          else 0)\<rparr>)))"

subsection \<open>What the claims about the scorer speak about\<close>

text \<open>The replies of the matcher to a list of items, the first call being call \<open>n\<close>.\<close>

fun responses :: "matcher \<Rightarrow> nat \<Rightarrow> string list \<Rightarrow> (string + json) list" where
  "responses match_item n [] = []"
| "responses match_item n (item # items) = match_item n item # responses match_item (Suc n) items"

text \<open>The entry stored for a reply.\<close>

definition outcome_of :: "string + json \<Rightarrow> json" where
  "outcome_of r = (case r of Inl detail \<Rightarrow> error_outcome detail | Inr match_data \<Rightarrow> match_data)"

text \<open>The score of a level as the data model lists it, and of a reply by its level (a
  reply without a level counts as \<open>No match\<close>).\<close>

definition level_score :: "string \<Rightarrow> rat" where
  "level_score l =
     (if l = ''Full match'' then 1 else if l = ''Partial match'' then 1 / 2
      else if l = ''No match'' then 0 else if l = ''Error'' then 0 else 0)"

definition outcome_score :: "json \<Rightarrow> rat" where
  "outcome_score match_data =
     (case match_data of
        JObj d \<Rightarrow> (case dict_get d ''match_level'' (JStr ''No match'') of
                     JStr l \<Rightarrow> level_score l | _ \<Rightarrow> 0)
      | _ \<Rightarrow> 0)"

text \<open>The scores of the counted items: those whose match returned.\<close>

fun counted_scores :: "(string + json) list \<Rightarrow> rat list" where
  "counted_scores [] = []"
| "counted_scores (Inl detail # rs) = counted_scores rs"
| "counted_scores (Inr match_data # rs) = outcome_score match_data # counted_scores rs"


text \<open>A reply the scoring lines accept: an object whose level can be looked up.\<close>

definition scorable :: "string + json \<Rightarrow> bool" where
  "scorable r =
     (case r of
        Inl detail \<Rightarrow> True
      | Inr match_data \<Rightarrow>
          (case match_data of
             JObj d \<Rightarrow> (case dict_get d ''match_level'' (JStr ''No match'') of
                          JArr xs \<Rightarrow> False | JObj d' \<Rightarrow> False | _ \<Rightarrow> True)
           | _ \<Rightarrow> False))"

text \<open>The items of a category, over all its subcategories, in order.\<close>

definition items_of :: "items_value \<Rightarrow> string list" where
  "items_of v = (case v of Items xs \<Rightarrow> xs | NotAList \<Rightarrow> [])"

definition all_items :: "(string \<times> items_value) list \<Rightarrow> string list" where
  "all_items subs = concat (map (\<lambda>p. items_of (snd p)) subs)"

definition subcategories_of :: "subcategories_value \<Rightarrow> (string \<times> items_value) list" where
  "subcategories_of v = (case v of Subcategories subs \<Rightarrow> subs | NotADict \<Rightarrow> [])"

definition items_of_categories :: "(string \<times> subcategories_value) list \<Rightarrow> string list" where
  "items_of_categories cats = concat (map (\<lambda>p. all_items (subcategories_of (snd p))) cats)"



text \<open>Every list position that should hold items does.\<close>

definition well_formed :: "(string \<times> subcategories_value) list \<Rightarrow> bool" where
  "well_formed cats =
     list_all (\<lambda>p. list_all (\<lambda>q. snd q \<noteq> NotAList) (subcategories_of (snd p))) cats"

text \<open>The counters after the matcher's replies \<open>rs\<close> have been scored.\<close>

definition tally_after :: "tally \<Rightarrow> (string + json) list \<Rightarrow> tally" where
  "tally_after t rs =
     \<lparr>category_score = category_score t + sum_list (counted_scores rs),
      category_items = category_items t + length (counted_scores rs),
      total_score = total_score t + sum_list (counted_scores rs),
      total_items = total_items t + length (counted_scores rs),
      calls = calls t + length rs\<rparr>"

text \<open>The dictionary of a category after its subcategories have been scored: each
  subcategory holds, for every item text, the entry of the last reply for that text.\<close>

fun subcategory_results ::
  "matcher \<Rightarrow> nat \<Rightarrow> (string \<times> items_value) list \<Rightarrow> (string \<times> (string \<times> json) list) list
     \<Rightarrow> (string \<times> (string \<times> json) list) list" where
  "subcategory_results match_item n [] cat_results = cat_results"
| "subcategory_results match_item n ((subcategory, v) # rest) cat_results =
     subcategory_results match_item (n + length (items_of v)) rest
       (AList.update subcategory
          (AList.updates (items_of v) (map outcome_of (responses match_item n (items_of v))) [])
          cat_results)"


section \<open>Reading the model's reply (resume_parser.py, app.py)\<close>

text \<open>\<open>s.startswith(p)\<close> and \<open>s.endswith(p)\<close>\<close>

definition startswith :: "string \<Rightarrow> string \<Rightarrow> bool" where
  "startswith s p = (take (length p) s = p)"

definition endswith :: "string \<Rightarrow> string \<Rightarrow> bool" where
  "endswith s p = (length p \<le> length s \<and> drop (length s - length p) s = p)"

text \<open>\<open>s.replace("'", '"')\<close>\<close>

definition replace_quotes :: "string \<Rightarrow> string" where
  "replace_quotes s = map (\<lambda>c. if c = CHR 0x27 then CHR 0x22 else c) s"

text \<open>
  \<open>json.loads\<close> belongs to Python's library: the functions below take it as \<open>loads\<close>,
  with \<open>None\<close> for a \<open>JSONDecodeError\<close>.

  Lines 104 to 110 of \<open>generate_gpt_insights\<close>: the reply is trimmed and must begin with
  \<open>{\<close> and end with \<open>}\<close>. The \<open>HTTPException\<close> raised at line 110 is caught by the
  handler of line 129 and raised again with a detail built from it.
\<close>

definition checked_content :: "string \<Rightarrow> http_exception + string" where
  "checked_content raw =
     (let content = strip raw in
      if \<not> startswith content ''{'' \<or> \<not> endswith content ''}''
      then Inl (HTTPException 500 (ErrorOccurred 500 ''Invalid JSON response from OpenAI.''))
      else Inr content)"

text \<open>Lines 104 to 113 with the handlers of lines 125 to 131: the decoded reply, before
  the work experience in it is processed.\<close>

definition coerce_resume_response ::
  "(string \<Rightarrow> json option) \<Rightarrow> string \<Rightarrow> http_exception + json" where
  "coerce_resume_response loads raw =
     (case checked_content raw of
        Inl e \<Rightarrow> Inl e
      | Inr content \<Rightarrow>
          (case loads content of
             None \<Rightarrow> Inl (HTTPException 500 (Detail ''Error parsing JSON response from OpenAI.''))
           | Some gpt_insights \<Rightarrow> Inr gpt_insights))"

text \<open>Lines 57 to 62 of \<open>parse_natural_query\<close> in app.py: trimmed, single quotes made
  double, decoded; there is no check of the braces.\<close>

definition coerce_query_response ::
  "(string \<Rightarrow> json option) \<Rightarrow> string \<Rightarrow> http_exception + json" where
  "coerce_query_response loads raw =
     (case loads (replace_quotes (strip raw)) of
        None \<Rightarrow> Inl (HTTPException 500 ParsingNaturalQuery)
      | Some parsed_json \<Rightarrow> Inr parsed_json)"

text \<open>A text that begins with \<open>{\<close> and ends with \<open>}\<close>.\<close>

definition braced :: "string \<Rightarrow> bool" where
  "braced s = (s \<noteq> [] \<and> hd s = CHR ''{'' \<and> last s = CHR ''}'')"

text \<open>A decoder that, as \<open>json.loads\<close> does, reads \<open>{"a": "b"}\<close> as the object with the
  one member \<open>a\<close> and refuses the same text written with single quotes; it refuses every
  other text, so it stands for \<open>json.loads\<close> on these two texts only.\<close>

definition loads_sample :: "string \<Rightarrow> json option" where
  "loads_sample s = (if s = ''{\"a\": \"b\"}'' then Some (JObj [(''a'', JStr ''b'')]) else None)"

section \<open>Properties of the experience calculation\<close>

subsection \<open>Dates and splitting\<close>

lemma of_char_digit: "d < 10 \<Longrightarrow> of_char (digit_char d) = 48 + d"
  by (simp add: digit_char_def)

lemma isdigit_digit_char: "d < 10 \<Longrightarrow> isdigit (digit_char d)"
  by (simp add: isdigit_def of_char_digit)

lemma not_isspace_digit_char: "d < 10 \<Longrightarrow> \<not> isspace (digit_char d)"
  by (simp add: isspace_def of_char_digit)

lemma isspace_space: "isspace CHR '' ''"
  by (simp add: isspace_def)

lemma digit_val_digit_char: "d < 10 \<Longrightarrow> digit_val (digit_char d) = int d"
  by (simp add: digit_val_def of_char_digit)

lemma year4_props:
  "length (year4 y) = 4" "list_all isdigit (year4 y)"
  "dropWhile isspace (CHR '' '' # year4 y) = year4 y"
  "takeWhile isspace (CHR '' '' # year4 y) = '' ''"
  "dropWhile isspace (year4 y) = year4 y"
  by (simp_all add: year4_def isdigit_digit_char not_isspace_digit_char isspace_space)

lemma int_of_digits_year4: "y \<le> 9999 \<Longrightarrow> int_of_digits (year4 y) = int y"
proof -
  assume "y \<le> 9999"
  then have a: "y div 1000 mod 10 = y div 1000" by simp
  have e1: "10 * (y div 10) + y mod 10 = y" by simp
  have "y div 100 = y div 10 div 10" by (simp add: div_mult2_eq [symmetric])
  then have e2: "10 * (y div 100) + y div 10 mod 10 = y div 10" by simp
  have "y div 1000 = y div 100 div 10" by (simp add: div_mult2_eq [symmetric])
  then have e3: "10 * (y div 1000) + y div 100 mod 10 = y div 100" by simp
  have "int_of_digits (year4 y) = int (10 * (10 * (10 * (y div 1000 mod 10) + y div 100 mod 10) + y div 10 mod 10) + y mod 10)"
    by (simp add: int_of_digits_def year4_def digit_val_digit_char)
  also have "\<dots> = int y" unfolding a e3 e2 e1 ..
  finally show ?thesis .
qed

lemma match_month_name:
  assumes "1 \<le> m" "m \<le> 12"
  shows "match_month 1 f_month (month_name ! (m - 1) @ rest) = Some (int m, rest)"
proof -
  from assms have "m = 1 \<or> m = 2 \<or> m = 3 \<or> m = 4 \<or> m = 5 \<or> m = 6 \<or> m = 7 \<or> m = 8
      \<or> m = 9 \<or> m = 10 \<or> m = 11 \<or> m = 12" by presburger
  then show ?thesis
    by (elim disjE) (simp_all add: f_month_def month_name_def lower_def lower_char_def char_of_eq_iff)
qed

lemma strptime_month_year:
  "1 \<le> m \<Longrightarrow> m \<le> 12 \<Longrightarrow> 1 \<le> y \<Longrightarrow> y \<le> 9999 \<Longrightarrow>
   strptime_BY (month_year m y) = Some (mk_datetime (int y) (int m) 0)"
  by (simp add: strptime_BY_def month_year_def match_month_name year4_props int_of_digits_year4 isspace_space
      del: One_nat_def)


lemma take3_sep_dash: "take 3 (c # cs) = '' - '' \<Longrightarrow> CHR ''-'' \<in> set cs"
  by (cases cs) auto

lemma take3_sep_eq: "take 3 (c # cs) = '' - '' \<Longrightarrow> c # cs = '' - '' @ drop 2 cs"
proof -
  assume a: "take 3 (c # cs) = '' - ''"
  have "c # cs = take 3 (c # cs) @ drop 3 (c # cs)" by (simp only: append_take_drop_id)
  also have "\<dots> = '' - '' @ drop 3 (c # cs)" by (simp only: a)
  finally show ?thesis by simp
qed

lemma split_from_no_dash: "CHR ''-'' \<notin> set b \<Longrightarrow> split_from cur b = [rev cur @ b]"
proof (induction b arbitrary: cur)
  case Nil then show ?case by simp
next
  case (Cons c cs)
  then have "take 3 (c # cs) \<noteq> '' - ''" using take3_sep_dash by fastforce
  with Cons show ?case by simp
qed

lemma split_from_one_sep:
  "CHR ''-'' \<notin> set a \<Longrightarrow> CHR ''-'' \<notin> set b \<Longrightarrow>
   split_from cur (a @ '' - '' @ b) = [rev cur @ a, b]"
proof (induction a arbitrary: cur)
  case Nil then show ?case by (simp add: split_from_no_dash)
next
  case (Cons c cs)
  have "take 3 (c # cs @ '' - '' @ b) \<noteq> '' - ''"
  proof
    assume "take 3 (c # cs @ '' - '' @ b) = '' - ''"
    then have "hd (cs @ '' - '' @ b) = CHR ''-''" by (cases cs) auto
    with Cons.prems show False by (cases cs) auto
  qed
  with Cons show ?case by simp
qed

lemma split_from_nonempty: "split_from cur s \<noteq> []"
  by (induction cur s rule: split_from.induct) auto

lemma join_split_from: "join_sep (split_from cur s) = rev cur @ s"
proof (induction cur s rule: split_from.induct)
  case (1 cur) then show ?case by simp
next
  case (2 cur c cs)
  show ?case
  proof (cases "take 3 (c # cs) = '' - ''")
    case True
    obtain p ps where ps: "split_from [] (drop 2 cs) = p # ps"
      using split_from_nonempty [of "[]" "drop 2 cs"] by (cases "split_from [] (drop 2 cs)") auto
    have "split_from cur (c # cs) = rev cur # split_from [] (drop 2 cs)"
      using True by (simp only: split_from.simps if_True simp_thms)
    then have "join_sep (split_from cur (c # cs))
        = rev cur @ '' - '' @ join_sep (split_from [] (drop 2 cs))"
      by (simp add: ps)
    also have "\<dots> = rev cur @ '' - '' @ drop 2 cs" using "2.IH"(1) [OF True] by simp
    also have "\<dots> = rev cur @ c # cs" by (simp only: take3_sep_eq [OF True])
    finally show ?thesis .
  next
    case False
    have "split_from cur (c # cs) = split_from (c # cur) cs"
      using False by (simp only: split_from.simps if_False simp_thms)
    with "2.IH"(2) [OF False] show ?thesis by simp
  qed
qed

lemma split_sep_two: "split_sep s = [a, b] \<Longrightarrow> s = a @ '' - '' @ b"
  using join_split_from [of "[]" s] by (simp add: split_sep_def)

lemma month_diff: "(dt_year a - dt_year b) * 12 + (dt_month a - dt_month b) = dt_months a - dt_months b"
proof -
  have "dt_months a = 12 * (dt_months a div 12) + dt_months a mod 12" by simp
  moreover have "dt_months b = 12 * (dt_months b div 12) + dt_months b mod 12" by simp
  ultimately show ?thesis unfolding dt_year_def dt_month_def by (simp add: algebra_simps)
qed

lemma radd_set_months:
  "radd dt (set_months m) = \<lparr>dt_months = dt_months dt + m, dt_rest = dt_rest dt\<rparr>"
proof -
  have "dt_rest (radd dt (set_months m)) = dt_rest dt"
    by (simp add: radd_def Let_def mk_datetime_def)
  moreover have "dt_months (radd dt (set_months m)) = dt_months dt + m"
    by (simp add: radd_months set_months_total)
  ultimately show ?thesis by (cases "radd dt (set_months m)") simp
qed

lemma relativedelta_from_month_start:
  assumes "dt_rest dt2 = 0"
  shows "relativedelta_between dt1 dt2 =
     set_months (dt_months dt1 - dt_months dt2
        + (if dt_months dt1 < dt_months dt2 \<and> 0 < dt_rest dt1 then 1 else 0))"
proof (cases "dt_months dt1 < dt_months dt2")
  case False
  with assms have nl: "\<not> dt_less dt1 dt2" by (simp add: dt_less_def)
  have "adjust dt1 dt2 False (dt_months dt1 - dt_months dt2) = dt_months dt1 - dt_months dt2"
    by (subst adjust.simps) (simp add: radd_set_months dt_less_def assms)
  with False nl show ?thesis by (simp only: relativedelta_between_def month_diff if_False simp_thms add_0_right)
next
  case True
  then have l: "dt_less dt1 dt2" by (simp add: dt_less_def)
  have "adjust dt1 dt2 True (dt_months dt1 - dt_months dt2)
      = dt_months dt1 - dt_months dt2 + (if 0 < dt_rest dt1 then 1 else 0)"
    by (subst adjust.simps, simp add: radd_set_months dt_less_def assms,
        subst adjust.simps, simp add: radd_set_months dt_less_def assms)
  with True l show ?thesis by (simp only: relativedelta_between_def month_diff simp_thms)
qed

lemma experience_years_set_months: "experience_years (set_months m) = of_int m / 12"
proof -
  have "of_int m = (of_int (12 * years (set_months m) + months (set_months m)) :: rat)"
    by (simp only: set_months_total)
  then show ?thesis by (simp add: experience_years_def)
qed


lemma strptime_month_start: "strptime_BY s = Some d \<Longrightarrow> dt_rest d = 0"
  by (auto simp: strptime_BY_def Let_def mk_datetime_def split: option.splits if_splits)

lemma parse_dates_month_start: "parse_dates now ed = Inr (st, en) \<Longrightarrow> dt_rest st = 0"
  by (auto simp: parse_dates_def strptime_month_start split: json.splits list.splits option.splits if_splits)

lemma parse_dates_text: "parse_dates now (JStr s) = Inl e \<Longrightarrow> e = ValueError"
  by (auto simp: parse_dates_def split: list.splits option.splits if_splits)

lemma job_experience_value:
  "parse_dates now ed = Inr (st, en) \<Longrightarrow>
   job_experience now ed = Inr (of_int (dt_months en - dt_months st
        + (if dt_months en < dt_months st \<and> 0 < dt_rest en then 1 else 0)) / 12)"
  by (simp add: job_experience_def relativedelta_from_month_start [OF parse_dates_month_start]
      experience_years_set_months)


lemma digit_char_not_dash: "d < 10 \<Longrightarrow> CHR ''-'' \<noteq> digit_char d"
proof
  assume d: "d < 10" and e: "CHR ''-'' = digit_char d"
  have "of_char (digit_char d) = (45::nat)" by (simp add: e [symmetric])
  with of_char_digit [OF d] show False by simp
qed

lemma years_and_months: "(of_int d / 12 :: rat) = of_int (d div 12) + of_int (d mod 12) / 12"
proof -
  have "d = 12 * (d div 12) + d mod 12" by simp
  then have "(of_int d :: rat) = of_int (12 * (d div 12) + d mod 12)" by (rule arg_cong)
  also have "\<dots> = 12 * of_int (d div 12) + of_int (d mod 12)"
    by (simp only: of_int_add of_int_mult of_int_numeral)
  finally have "(of_int d :: rat) = 12 * of_int (d div 12) + of_int (d mod 12)" .
  then show ?thesis by (simp add: field_simps)
qed

lemma month_name_facts:
  assumes "1 \<le> m" "m \<le> 12"
  shows "CHR ''-'' \<notin> set (month_name ! (m - 1))" "3 \<le> length (month_name ! (m - 1))"
proof -
  from assms have "m = 1 \<or> m = 2 \<or> m = 3 \<or> m = 4 \<or> m = 5 \<or> m = 6 \<or> m = 7 \<or> m = 8
      \<or> m = 9 \<or> m = 10 \<or> m = 11 \<or> m = 12" by presburger
  then show "CHR ''-'' \<notin> set (month_name ! (m - 1))" "3 \<le> length (month_name ! (m - 1))"
    by (elim disjE; simp add: month_name_def)+
qed

lemma month_year_no_dash: "1 \<le> m \<Longrightarrow> m \<le> 12 \<Longrightarrow> CHR ''-'' \<notin> set (month_year m y)"
  by (simp add: month_year_def month_name_facts year4_def digit_char_not_dash del: One_nat_def)

lemma month_year_not_ongoing:
  assumes "1 \<le> m" "m \<le> 12"
  shows "lower (month_year m y) \<notin> set [''present'', ''current'']"
proof -
  have "8 \<le> length (lower (month_year m y))"
    using month_name_facts(2) [OF assms] by (simp add: lower_def month_year_def year4_def del: One_nat_def)
  then show ?thesis by auto
qed

lemma parse_dates_date_range:
  assumes "1 \<le> m1" "m1 \<le> 12" "1 \<le> y1" "y1 \<le> 9999" "1 \<le> m2" "m2 \<le> 12" "1 \<le> y2" "y2 \<le> 9999"
  shows "parse_dates now (JStr (date_range m1 y1 m2 y2))
       = Inr (mk_datetime (int y1) (int m1) 0, mk_datetime (int y2) (int m2) 0)"
proof -
  have "split_sep (date_range m1 y1 m2 y2) = [month_year m1 y1, month_year m2 y2]"
    unfolding split_sep_def date_range_def
    using split_from_one_sep [of "month_year m1 y1" "month_year m2 y2" "[]"]
      month_year_no_dash assms by simp
  then show ?thesis
    using month_year_not_ongoing [OF assms(5,6), of y2]
    by (simp add: parse_dates_def strptime_month_year assms del: One_nat_def)
qed


lemma loop_step_parsed:
  "parsed (now, job) \<Longrightarrow>
   calculate_experience_loop ((now, job) # rest) tot acc =
   calculate_experience_loop rest (tot + duration (now, job)) (acc @ [with_experience (now, job)])"
  by (auto simp: parsed_def duration_def with_experience_def split: sum.splits)

lemma loop_step_skipped:
  "job_experience now (employment_dates job) = Inl ValueError \<Longrightarrow>
   calculate_experience_loop ((now, job) # rest) tot acc = calculate_experience_loop rest tot acc"
  by simp

lemma not_parsed_skipped:
  "job_experience now (employment_dates job) = Inl ValueError \<Longrightarrow> \<not> parsed (now, job)"
  by (simp add: parsed_def)


lemma loop_returns:
  "calculate_experience_loop work tot acc = Inr (t, recs) \<Longrightarrow>
   t = round1 (tot + sum_list (map duration (filter parsed work)))
   \<and> recs = acc @ map with_experience (filter parsed work)"
proof (induction work arbitrary: tot acc)
  case Nil
  then show ?case by simp
next
  case (Cons r work)
  obtain now job where r: "r = (now, job)" by (cases r)
  show ?case
  proof (cases "job_experience now (employment_dates job)")
    case (Inr y)
    then have p: "parsed (now, job)" by (simp add: parsed_def)
    from Cons.prems have "calculate_experience_loop work (tot + duration (now, job))
        (acc @ [with_experience (now, job)]) = Inr (t, recs)"
      unfolding r by (simp only: loop_step_parsed [OF p])
    from Cons.IH [OF this] p show ?thesis by (simp add: r add.assoc)
  next
    case (Inl e)
    with Cons.prems have e: "e = ValueError" unfolding r by (cases e) simp_all
    from Inl e have sk: "job_experience now (employment_dates job) = Inl ValueError" by simp
    from Cons.prems have "calculate_experience_loop work tot acc = Inr (t, recs)"
      unfolding r by (simp only: loop_step_skipped [OF sk])
    from Cons.IH [OF this] not_parsed_skipped [OF sk] show ?thesis by (simp add: r)
  qed
qed

lemma round1_nonneg: "0 \<le> x \<Longrightarrow> 0 \<le> round1 x"
proof -
  assume "0 \<le> x"
  then have "0 \<le> \<lfloor>x * 10\<rfloor>" by simp
  then show ?thesis by (simp add: round1_def Let_def)
qed

lemma duration_nonneg: "ends_after_start r \<Longrightarrow> 0 \<le> duration r"
proof (cases "parse_dates (fst r) (employment_dates (snd r))")
  case (Inl e)
  then show ?thesis by (simp add: duration_def job_experience_def)
next
  case (Inr p)
  assume a: "ends_after_start r"
  obtain st en where p: "p = (st, en)" by (cases p)
  from a Inr p have nl: "\<not> dt_less en st" by (simp add: ends_after_start_def)
  have "dt_rest st = 0" using Inr p parse_dates_month_start by simp
  with nl have "dt_months st \<le> dt_months en" by (auto simp: dt_less_def)
  then show ?thesis
    using job_experience_value [of "fst r" "employment_dates (snd r)" st en] Inr p
    by (simp add: duration_def)
qed

lemma experience_nonneg_stored: "0 \<le> duration r \<Longrightarrow> experience_nonneg (with_experience r)"
  by (simp add: experience_nonneg_def with_experience_def update_conv' round1_nonneg)

subsection \<open>The shape of the accepted date texts\<close>

lemma match_month_found:
  "match_month i nms s = Some (j, rest) \<Longrightarrow>
   \<exists>nm \<in> set nms. lower (take (length nm) s) = nm \<and> rest = drop (length nm) s"
  by (induction nms arbitrary: i) (auto split: if_splits)

lemma strptime_parts:
  assumes "strptime_BY s = Some d"
  shows "\<exists>j rest. match_month 1 f_month s = Some (j, rest) \<and> takeWhile isspace rest \<noteq> []
     \<and> length (dropWhile isspace rest) = 4 \<and> list_all isdigit (dropWhile isspace rest)
     \<and> int_of_digits (dropWhile isspace rest) \<noteq> 0"
proof (cases "match_month 1 f_month s")
  case None
  with assms show ?thesis by (simp add: strptime_BY_def)
next
  case (Some a)
  obtain j rest where a: "a = (j, rest)" by (cases a)
  from assms Some a show ?thesis
    by (simp add: strptime_BY_def Let_def split: if_splits)
qed

lemma strptime_shape: "strptime_BY s = Some d \<Longrightarrow> is_month_year s"
proof -
  assume a: "strptime_BY s = Some d"
  from strptime_parts [OF a] obtain j rest where m: "match_month 1 f_month s = Some (j, rest)"
    and c: "takeWhile isspace rest \<noteq> []" "length (dropWhile isspace rest) = 4"
      "list_all isdigit (dropWhile isspace rest)" "int_of_digits (dropWhile isspace rest) \<noteq> 0"
    by blast
  from match_month_found [OF m] obtain nm where
    nm: "nm \<in> set f_month" "lower (take (length nm) s) = nm" "rest = drop (length nm) s"
    by blast
  have s: "s = take (length nm) s @ takeWhile isspace rest @ dropWhile isspace rest"
    by (simp add: nm(3))
  have l: "lower (take (length nm) s) \<in> set f_month" using nm(1,2) by simp
  have w: "list_all isspace (takeWhile isspace rest)"
    by (auto simp: list_all_iff dest: set_takeWhileD)
  show ?thesis
    unfolding is_month_year_def
    apply (rule exI [of _ "take (length nm) s"])
    apply (rule exI [of _ "takeWhile isspace rest"])
    apply (rule exI [of _ "dropWhile isspace rest"])
    using s l w c apply (intro conjI)
          apply assumption+
    done
qed

lemma digit_not_space: "isdigit c \<Longrightarrow> \<not> isspace c"
  by (auto simp: isdigit_def isspace_def Let_def)

lemma f_month_prefix_free:
  "\<forall>a \<in> set f_month. \<forall>b \<in> set f_month. take (length a) b = a \<longrightarrow> a = b"
  by (simp add: f_month_def)

lemma lower_take: "lower (take k s) = take k (lower s)"
  by (simp add: lower_def take_map)

lemma match_month_of_name:
  assumes "lower p \<in> set nms"
    and "\<forall>a \<in> set nms. take (length a) (lower p) = a \<or> take (length p) a = lower p \<longrightarrow> a = lower p"
  shows "\<exists>j. match_month i nms (p @ r) = Some (j, r)"
  using assms
proof (induction nms arbitrary: i)
  case Nil
  then show ?case by simp
next
  case (Cons nm nms)
  have lp: "length (lower p) = length p" by (simp add: lower_def)
  show ?case
  proof (cases "lower (take (length nm) (p @ r)) = nm")
    case True
    then have t: "take (length nm) (lower p @ lower r) = nm" by (simp add: lower_def take_map)
    have "nm = lower p"
    proof (cases "length nm \<le> length p")
      case True
      with t have "take (length nm) (lower p) = nm" by (simp add: lp)
      with Cons.prems(2) show ?thesis by simp
    next
      case False
      have "take (length p) nm = take (length p) (take (length nm) (lower p @ lower r))"
        by (simp only: t)
      also have "\<dots> = lower p" using False by (simp add: lp min_def)
      finally show ?thesis using Cons.prems(2) by simp
    qed
    then have "length nm = length p" "lower (take (length nm) (p @ r)) = nm"
      using lp True by simp_all
    then show ?thesis by simp
  next
    case False
    then have ne: "nm \<noteq> lower p" by (auto simp: lower_take lower_def)
    with Cons.prems have "lower p \<in> set nms"
      and "\<forall>a \<in> set nms. take (length a) (lower p) = a \<or> take (length p) a = lower p \<longrightarrow> a = lower p"
      by auto
    from Cons.IH [OF this] obtain j where "match_month (i + 1) nms (p @ r) = Some (j, r)" by blast
    with False show ?thesis by simp
  qed
qed

lemma shape_strptime: "is_month_year s \<Longrightarrow> \<exists>d. strptime_BY s = Some d"
proof -
  assume "is_month_year s"
  then obtain p ws ds where s: "s = p @ ws @ ds" and p: "lower p \<in> set f_month"
    and ws: "ws \<noteq> []" "list_all isspace ws"
    and ds: "length ds = 4" "list_all isdigit ds" "int_of_digits ds \<noteq> 0"
    unfolding is_month_year_def by blast
  have lp: "length (lower p) = length p" by (simp add: lower_def)
  have "\<forall>a \<in> set f_month. take (length a) (lower p) = a \<or> take (length p) a = lower p \<longrightarrow> a = lower p"
    using f_month_prefix_free p lp by metis
  from match_month_of_name [OF p this] obtain j
    where m: "match_month 1 f_month (p @ ws @ ds) = Some (j, ws @ ds)" by blast
  from ds obtain c cs where c: "ds = c # cs" by (cases ds) auto
  with ds have "\<not> isspace c" by (simp add: digit_not_space)
  with ws c have "takeWhile isspace (ws @ ds) = ws" "dropWhile isspace (ws @ ds) = ds"
    by (simp_all add: list_all_iff)
  with m ws ds show ?thesis by (simp add: strptime_BY_def s)
qed

lemma dash_in_lower: "CHR ''-'' \<in> set s \<Longrightarrow> CHR ''-'' \<in> set (lower s)"
proof -
  assume "CHR ''-'' \<in> set s"
  then have "lower_char CHR ''-'' \<in> set (lower s)" by (simp add: lower_def)
  then show ?thesis by (simp add: lower_char_def)
qed

lemma month_year_shape_no_dash: "is_month_year s \<Longrightarrow> CHR ''-'' \<notin> set s"
proof -
  assume "is_month_year s"
  then obtain p ws ds where s: "s = p @ ws @ ds" and p: "lower p \<in> set f_month"
    and ws: "list_all isspace ws" and ds: "list_all isdigit ds"
    unfolding is_month_year_def by blast
  have "CHR ''-'' \<notin> set (lower p)" using p by (auto simp: f_month_def)
  then have "CHR ''-'' \<notin> set p" using dash_in_lower by blast
  moreover have "\<not> isspace CHR ''-''" "\<not> isdigit CHR ''-''"
    by (simp_all add: isspace_def isdigit_def)
  then have "CHR ''-'' \<notin> set ws" "CHR ''-'' \<notin> set ds"
    using ws ds by (auto simp: list_all_iff)
  ultimately show ?thesis by (simp add: s)
qed

lemma ongoing_no_dash: "is_ongoing b \<Longrightarrow> CHR ''-'' \<notin> set b"
proof
  assume o: "is_ongoing b" and "CHR ''-'' \<in> set b"
  then have "CHR ''-'' \<in> set (lower b)" by (rule_tac dash_in_lower)
  with o show False by (auto simp: is_ongoing_def)
qed

lemma parse_dates_accepts: "parse_dates now (JStr s) = Inr r \<Longrightarrow> accepted_shape s"
proof -
  assume a: "parse_dates now (JStr s) = Inr r"
  then obtain x y where sp: "split_sep s = [x, y]"
    by (auto simp: parse_dates_def split: list.splits)
  from a sp obtain st where st: "strptime_BY x = Some st"
    by (auto simp: parse_dates_def split: option.splits)
  from a sp st have "is_ongoing y \<or> (\<exists>en. strptime_BY y = Some en)"
    by (auto simp: parse_dates_def is_ongoing_def split: option.splits if_splits)
  then have "is_ongoing y \<or> is_month_year y" using strptime_shape by blast
  with split_sep_two [OF sp] strptime_shape [OF st] show ?thesis
    unfolding accepted_shape_def by blast
qed

lemma parse_dates_of_shape:
  assumes "is_month_year a" "is_ongoing b \<or> is_month_year b"
  shows "\<exists>st en. strptime_BY a = Some st
     \<and> parse_dates now (JStr (a @ '' - '' @ b)) = Inr (st, en) \<and> (is_ongoing b \<longrightarrow> en = now)"
proof -
  from assms have "CHR ''-'' \<notin> set a" "CHR ''-'' \<notin> set b"
    using month_year_shape_no_dash ongoing_no_dash by blast+
  then have sp: "split_sep (a @ '' - '' @ b) = [a, b]"
    using split_from_one_sep [of a b "[]"] by (simp add: split_sep_def)
  from shape_strptime [OF assms(1)] obtain st where st: "strptime_BY a = Some st" by blast
  show ?thesis
  proof (cases "is_ongoing b")
    case True
    then have "lower b \<in> set [''present'', ''current'']" by (auto simp: is_ongoing_def)
    then show ?thesis using st sp by (simp add: parse_dates_def)
  next
    case False
    then have n: "lower b \<notin> set [''present'', ''current'']" by (auto simp: is_ongoing_def)
    from False assms(2) shape_strptime obtain en where "strptime_BY b = Some en" by blast
    then show ?thesis using st sp n False by (simp add: parse_dates_def)
  qed
qed

subsection \<open>The claims about the aggregator and the date parser\<close>






text \<open>
  C3 (as corrected). Nothing in the code compares the two dates of a range, so a range
  that ends before it starts has a negative duration, which is stored and summed as it is.
  When no parsed range of the input ends before it starts, the total and every stored
  \<open>experience_years\<close> are at least 0.
\<close>

theorem experience_nonnegative_when_ranges_ordered:
  "calculate_experience work = Inr (total_years, records) \<Longrightarrow>
   list_all ends_after_start work \<Longrightarrow>
   0 \<le> total_years \<and> list_all experience_nonneg records"
proof -
  assume c: "calculate_experience work = Inr (total_years, records)"
    and o: "list_all ends_after_start work"
  from c have t: "total_years = round1 (sum_list (map duration (filter parsed work)))"
    and r: "records = map with_experience (filter parsed work)"
    using loop_returns [of work 0 "[]" total_years records]
    by (simp_all add: calculate_experience_def)
  from o have d: "\<forall>x \<in> set work. 0 \<le> duration x"
    by (simp add: list_all_iff duration_nonneg)
  then have "0 \<le> sum_list (map duration (filter parsed work))"
    by (intro sum_list_nonneg) auto
  with t have "0 \<le> total_years" by (simp add: round1_nonneg)
  moreover from d r have "list_all experience_nonneg records"
    by (simp add: list_all_iff experience_nonneg_stored)
  ultimately show ?thesis by simp
qed

text \<open>A range written backwards: the total and the stored value are \<open>-2\<close>.\<close>

theorem negative_experience_counterexample:
  "calculate_experience
     [(mk_datetime 2026 11 5, [(''employment_dates'', JStr ''January 2017 - January 2015'')])]
   = Inr (- 2,
       [[(''employment_dates'', JStr ''January 2017 - January 2015''),
         (''experience_years'', JNum (- 2))]])"
  by code_simp

theorem experience_nonnegative_when_ranges_ordered_witness:
  "(0::rat) \<le> 9 / 2 \<and> list_all experience_nonneg
       [[(''employment_dates'', JStr ''March 2019 - September 2023''),
         (''experience_years'', JNum (9 / 2))]]"
proof -
  have c: "calculate_experience
     [(mk_datetime 2026 11 5, [(''employment_dates'', JStr ''March 2019 - September 2023'')])]
   = Inr (9 / 2,
       [[(''employment_dates'', JStr ''March 2019 - September 2023''),
         (''experience_years'', JNum (9 / 2))]])"
    by code_simp
  have o: "list_all ends_after_start
     [(mk_datetime 2026 11 5, [(''employment_dates'', JStr ''March 2019 - September 2023'')])]"
    by code_simp
  show ?thesis
    by (rule experience_nonnegative_when_ranges_ordered [OF c o])
qed

text \<open>
  C4 (as corrected). For months \<open>m1\<close>, \<open>m2\<close> from 1 to 12 and years \<open>y1\<close>, \<open>y2\<close> from 1
  to 9999, the text \<open><Month m1> <y1> - <Month m2> <y2>\<close> parses, and its duration is the
  number of calendar months from the start month to the end month, divided by 12. When the
  end month is not before the start month, \<open>relativedelta\<close> holds the whole years and the
  remaining months of that count, the duration is their \<open>years + months / 12\<close>, and it is
  not negative. \<open>January 2015 - January 2017\<close> is exactly 2 years. A range whose end month
  is before its start month parses as well; its duration is negative.
\<close>

theorem month_year_range_duration:
  assumes "1 \<le> m1" "m1 \<le> 12" "1 \<le> y1" "y1 \<le> 9999" "1 \<le> m2" "m2 \<le> 12" "1 \<le> y2" "y2 \<le> 9999"
  shows "job_experience now (JStr (date_range m1 y1 m2 y2))
           = Inr (of_int ((12 * int y2 + int m2) - (12 * int y1 + int m1)) / 12)
       \<and> (12 * y1 + m1 \<le> 12 * y2 + m2 \<longrightarrow>
            relativedelta_between (mk_datetime (int y2) (int m2) 0) (mk_datetime (int y1) (int m1) 0)
              = \<lparr>years = ((12 * int y2 + int m2) - (12 * int y1 + int m1)) div 12,
                 months = ((12 * int y2 + int m2) - (12 * int y1 + int m1)) mod 12\<rparr>
          \<and> job_experience now (JStr (date_range m1 y1 m2 y2))
              = Inr (of_int (((12 * int y2 + int m2) - (12 * int y1 + int m1)) div 12)
                     + of_int (((12 * int y2 + int m2) - (12 * int y1 + int m1)) mod 12) / 12)
          \<and> (\<exists>y. job_experience now (JStr (date_range m1 y1 m2 y2)) = Inr y \<and> 0 \<le> y))
       \<and> date_range 1 2015 1 2017 = ''January 2015 - January 2017''
       \<and> job_experience now (JStr ''January 2015 - January 2017'') = Inr 2"
proof -
  let ?d = "(12 * int y2 + int m2) - (12 * int y1 + int m1)"
  have je: "job_experience now (JStr (date_range m1 y1 m2 y2)) = Inr (of_int ?d / 12)"
    using job_experience_value [OF parse_dates_date_range [OF assms]]
    by (simp add: mk_datetime_def)
  have rd: "relativedelta_between (mk_datetime (int y2) (int m2) 0) (mk_datetime (int y1) (int m1) 0)
      = set_months ?d"
  proof -
    have "12 * int y2 + (int m2 - 1) - (12 * int y1 + (int m1 - 1)) = ?d" by simp
    then show ?thesis
      by (simp only: relativedelta_from_month_start mk_datetime_def datetime.simps
          less_irrefl simp_thms if_False add_0_right)
  qed
  have sm: "0 \<le> ?d \<Longrightarrow> set_months ?d = \<lparr>years = ?d div 12, months = ?d mod 12\<rparr>"
    by (simp add: set_months_def Let_def)
  have ey: "(of_int ?d / 12 :: rat) = of_int (?d div 12) + of_int (?d mod 12) / 12"
    by (rule years_and_months)
  have dr: "date_range 1 2015 1 2017 = ''January 2015 - January 2017''"
    by (simp add: date_range_def month_year_def month_name_def year4_def digit_char_def char_of_eq_iff)
  have ex: "job_experience now (JStr (date_range 1 2015 1 2017)) = Inr 2"
    using job_experience_value [OF parse_dates_date_range [of 1 2015 1 2017 now]]
    by (simp add: mk_datetime_def)
  have nn: "12 * y1 + m1 \<le> 12 * y2 + m2 \<Longrightarrow> 0 \<le> ?d" by linarith
  show ?thesis
    using je rd sm ey dr ex nn by (auto simp del: of_int_add of_int_diff of_int_mult)
qed

text \<open>\<open>January 2017 - January 2015\<close> parses, to minus two years.\<close>

theorem backwards_range_counterexample:
  "date_range 1 2017 1 2015 = ''January 2017 - January 2015''
   \<and> job_experience (mk_datetime 2026 11 5) (JStr ''January 2017 - January 2015'') = Inr (- 2)"
  by code_simp

text \<open>\<open>March 2015 - May 2017\<close>: two years and two months.\<close>

theorem month_year_range_duration_witness:
  "date_range 3 2015 5 2017 = ''March 2015 - May 2017''
   \<and> relativedelta_between (mk_datetime 2017 5 0) (mk_datetime 2015 3 0) = \<lparr>years = 2, months = 2\<rparr>
   \<and> job_experience (mk_datetime 2026 11 5) (JStr ''March 2015 - May 2017'') = Inr (13 / 6)"
proof -
  have dr: "date_range 3 2015 5 2017 = ''March 2015 - May 2017''" by code_simp
  show ?thesis
    using month_year_range_duration [of 3 2015 5 2017 "mk_datetime 2026 11 5"]
    by (simp add: dr)
qed

text \<open>
  C5. \<open>parse_dates\<close> succeeds on a text exactly when the text is a month and a year, the
  separator \<open>" - "\<close>, and then either a month and a year or the word \<open>present\<close> or
  \<open>current\<close> in any letter case; every other text is a \<open>ValueError\<close>, for which the loop
  drops the record. With \<open>present\<close> or \<open>current\<close> the end of the range is the clock
  reading taken while the record is processed. Abbreviated month names, numeric dates,
  month names of another language and another separator are refused.
\<close>

theorem date_parser_accepts_exactly_two_forms:
  "(\<exists>r. parse_dates now (JStr s) = Inr r) = accepted_shape s
   \<and> (\<not> accepted_shape s \<longrightarrow> parse_dates now (JStr s) = Inl ValueError)
   \<and> (is_month_year a \<and> is_ongoing b \<longrightarrow>
        (\<exists>st. strptime_BY a = Some st \<and> parse_dates now (JStr (a @ '' - '' @ b)) = Inr (st, now)))
   \<and> parse_dates now (JStr ''Jan 2015 - Dec 2020'') = Inl ValueError
   \<and> parse_dates now (JStr ''01/2015 - 12/2020'') = Inl ValueError
   \<and> parse_dates now (JStr ''Januar 2015 - Dezember 2020'') = Inl ValueError
   \<and> parse_dates now (JStr ''January 2015 to January 2017'') = Inl ValueError"
proof -
  have iff: "(\<exists>r. parse_dates now (JStr s) = Inr r) = accepted_shape s"
  proof
    assume "\<exists>r. parse_dates now (JStr s) = Inr r"
    then show "accepted_shape s" using parse_dates_accepts by blast
  next
    assume "accepted_shape s"
    then obtain x y where "s = x @ '' - '' @ y" "is_month_year x" "is_ongoing y \<or> is_month_year y"
      unfolding accepted_shape_def by blast
    then show "\<exists>r. parse_dates now (JStr s) = Inr r"
      using parse_dates_of_shape [of x y now] by auto
  qed
  have rej: "\<not> accepted_shape s \<longrightarrow> parse_dates now (JStr s) = Inl ValueError"
  proof
    assume n: "\<not> accepted_shape s"
    show "parse_dates now (JStr s) = Inl ValueError"
    proof (cases "parse_dates now (JStr s)")
      case (Inl e)
      then show ?thesis using parse_dates_text by simp
    next
      case (Inr r)
      with iff n show ?thesis by blast
    qed
  qed
  have ong: "is_month_year a \<and> is_ongoing b \<longrightarrow>
        (\<exists>st. strptime_BY a = Some st \<and> parse_dates now (JStr (a @ '' - '' @ b)) = Inr (st, now))"
    using parse_dates_of_shape [of a b now] by auto
  have e1: "parse_dates now (JStr ''Jan 2015 - Dec 2020'') = Inl ValueError" by code_simp
  have e2: "parse_dates now (JStr ''01/2015 - 12/2020'') = Inl ValueError" by code_simp
  have e3: "parse_dates now (JStr ''Januar 2015 - Dezember 2020'') = Inl ValueError" by code_simp
  have e4: "parse_dates now (JStr ''January 2015 to January 2017'') = Inl ValueError" by code_simp
  from iff rej ong e1 e2 e3 e4 show ?thesis by (intro conjI)
qed

text \<open>\<open>january  2015 - CURRENT\<close>, read while the clock is in November 2026.\<close>

theorem date_parser_accepts_exactly_two_forms_witness:
  "accepted_shape ''january  2015 - CURRENT''
   \<and> parse_dates (mk_datetime 2026 11 5) (JStr ''january  2015 - CURRENT'')
       = Inr (mk_datetime 2015 1 0, mk_datetime 2026 11 5)"
proof -
  have p: "parse_dates (mk_datetime 2026 11 5) (JStr ''january  2015 - CURRENT'')
       = Inr (mk_datetime 2015 1 0, mk_datetime 2026 11 5)" by code_simp
  then have "\<exists>r. parse_dates (mk_datetime 2026 11 5) (JStr ''january  2015 - CURRENT'') = Inr r"
    by blast
  then have "accepted_shape ''january  2015 - CURRENT''"
    using date_parser_accepts_exactly_two_forms
      [of "mk_datetime 2026 11 5" "''january  2015 - CURRENT''"] by blast
  with p show ?thesis by blast
qed

section \<open>Properties of the scorer\<close>

subsection \<open>The item loop\<close>

lemma responses_append:
  "responses m n (xs @ ys) = responses m n xs @ responses m (n + length xs) ys"
  by (induction xs arbitrary: n) simp_all

lemma length_responses: "length (responses m n xs) = length xs"
  by (induction xs arbitrary: n) simp_all

lemma counted_scores_append: "counted_scores (rs @ rs') = counted_scores rs @ counted_scores rs'"
  by (induction rs rule: counted_scores.induct) simp_all

lemma table_is_level_score: "item_score_of (JStr l) = Inr (level_score l)"
  by (simp add: item_score_of_def level_score_def dict_get_def MATCH_SCORES_def)

lemma scorable_reply:
  "scorable (Inr md) \<Longrightarrow>
   \<exists>d. md = JObj d \<and> item_score_of (dict_get d ''match_level'' (JStr ''No match'')) = Inr (outcome_score md)"
  by (auto simp: scorable_def outcome_score_def item_score_of_def table_is_level_score [unfolded item_score_of_def, simplified]
      split: json.splits)

lemma outcome_of_simps:
  "outcome_of (Inl detail) = error_outcome detail" "outcome_of (Inr md) = md"
  by (simp_all add: outcome_of_def)

lemma tally_after_Nil: "tally_after t [] = t"
  by (simp add: tally_after_def)

lemma tally_after_failed:
  "tally_after t (Inl detail # rs) = tally_after (t\<lparr>calls := calls t + 1\<rparr>) rs"
  by (simp add: tally_after_def)

lemma tally_after_scored:
  "tally_after t (Inr md # rs) =
   tally_after (t\<lparr>category_score := category_score t + outcome_score md,
                 category_items := category_items t + 1,
                 total_score := total_score t + outcome_score md,
                 total_items := total_items t + 1,
                 calls := calls t + 1\<rparr>) rs"
  by (simp add: tally_after_def)

lemma tally_after_append: "tally_after (tally_after t rs) rs' = tally_after t (rs @ rs')"
  by (simp add: tally_after_def counted_scores_append)

lemma score_items_step_failed:
  "m (calls t) item = Inl detail \<Longrightarrow>
   score_items m (item # items) res t =
   score_items m items (AList.update item (error_outcome detail) res) (t\<lparr>calls := calls t + 1\<rparr>)"
  by simp

lemma score_items_step_scored:
  "m (calls t) item = Inr md \<Longrightarrow> scorable (Inr md) \<Longrightarrow>
   score_items m (item # items) res t =
   score_items m items (AList.update item md res)
     (t\<lparr>category_score := category_score t + outcome_score md,
        category_items := category_items t + 1,
        total_score := total_score t + outcome_score md,
        total_items := total_items t + 1,
        calls := calls t + 1\<rparr>)"
  using scorable_reply [of md] by auto

lemma score_items_step_unscorable:
  "m (calls t) item = Inr md \<Longrightarrow> \<not> scorable (Inr md) \<Longrightarrow>
   \<exists>e. score_items m (item # items) res t = Inl e"
  by (auto simp: scorable_def item_score_of_def split: json.splits)

lemma score_items_scorable:
  "list_all scorable (responses m (calls t) items) \<Longrightarrow>
   score_items m items res t =
     Inr (AList.updates items (map outcome_of (responses m (calls t) items)) res,
          tally_after t (responses m (calls t) items))"
proof (induction items arbitrary: res t)
  case Nil
  then show ?case by (simp add: tally_after_Nil)
next
  case (Cons item items)
  from Cons.prems have s: "scorable (m (calls t) item)"
    and rest: "list_all scorable (responses m (Suc (calls t)) items)" by simp_all
  show ?case
  proof (cases "m (calls t) item")
    case (Inl detail)
    let ?t = "t\<lparr>calls := calls t + 1\<rparr>"
    have c: "calls ?t = Suc (calls t)" by simp
    from rest have "list_all scorable (responses m (calls ?t) items)" by (simp only: c)
    from Cons.IH [OF this] show ?thesis
      by (simp only: score_items_step_failed [of m t item detail, OF Inl] c tally_after_failed
            responses.simps Inl list.map outcome_of_simps AList.updates_simps)
  next
    case (Inr md)
    let ?t = "t\<lparr>category_score := category_score t + outcome_score md,
        category_items := category_items t + 1,
        total_score := total_score t + outcome_score md,
        total_items := total_items t + 1,
        calls := calls t + 1\<rparr>"
    have c: "calls ?t = Suc (calls t)" by simp
    from s Inr have sm: "scorable (Inr md)" by simp
    from rest have "list_all scorable (responses m (calls ?t) items)" by (simp only: c)
    from Cons.IH [OF this] show ?thesis
      by (simp only: score_items_step_scored [of m t item md, OF Inr sm] c tally_after_scored
            responses.simps Inr list.map outcome_of_simps AList.updates_simps)
  qed
qed

lemma score_items_returns:
  "score_items m items res t = Inr x \<Longrightarrow> list_all scorable (responses m (calls t) items)"
proof (induction items arbitrary: res t)
  case Nil
  then show ?case by simp
next
  case (Cons item items)
  show ?case
  proof (cases "m (calls t) item")
    case (Inl detail)
    let ?t = "t\<lparr>calls := calls t + 1\<rparr>"
    have c: "calls ?t = Suc (calls t)" by simp
    from Cons.prems have "score_items m items (AList.update item (error_outcome detail) res) ?t = Inr x"
      by (simp only: score_items_step_failed [of m t item detail, OF Inl])
    from Cons.IH [OF this] show ?thesis by (simp add: Inl scorable_def)
  next
    case (Inr md)
    show ?thesis
    proof (cases "scorable (Inr md)")
      case True
      let ?t = "t\<lparr>category_score := category_score t + outcome_score md,
        category_items := category_items t + 1,
        total_score := total_score t + outcome_score md,
        total_items := total_items t + 1,
        calls := calls t + 1\<rparr>"
      from Cons.prems have "score_items m items (AList.update item md res) ?t = Inr x"
        by (simp only: score_items_step_scored [of m t item md, OF Inr True])
      from Cons.IH [OF this] True show ?thesis by (simp add: Inr)
    next
      case False
      from score_items_step_unscorable [of m t item md items res, OF Inr False] Cons.prems show ?thesis by auto
    qed
  qed
qed

subsection \<open>The subcategory loop and the category loop\<close>

lemma calls_tally_after: "calls (tally_after t rs) = calls t + length rs"
  by (simp add: tally_after_def)

lemma all_items_Cons: "all_items ((s, v) # rest) = items_of v @ all_items rest"
  by (simp add: all_items_def)

lemma score_subcategories_well_formed:
  "list_all (\<lambda>q. snd q \<noteq> NotAList) subs \<Longrightarrow>
   list_all scorable (responses m (calls t) (all_items subs)) \<Longrightarrow>
   score_subcategories m subs catres t =
     Inr (subcategory_results m (calls t) subs catres,
          tally_after t (responses m (calls t) (all_items subs)))"
proof (induction subs arbitrary: catres t)
  case Nil
  then show ?case by (simp add: all_items_def tally_after_Nil)
next
  case (Cons p subs)
  obtain s v where p: "p = (s, v)" by (cases p)
  from Cons.prems(1) p obtain xs where v: "v = Items xs" by (cases v) auto
  let ?rs = "responses m (calls t) xs"
  from Cons.prems(2) have a: "list_all scorable ?rs"
    and b: "list_all scorable (responses m (calls t + length xs) (all_items subs))"
    by (simp_all add: p v all_items_Cons items_of_def responses_append)
  have c: "calls (tally_after t ?rs) = calls t + length xs"
    by (simp add: calls_tally_after length_responses)
  from Cons.prems(1) have w: "list_all (\<lambda>q. snd q \<noteq> NotAList) subs" by simp
  from b have b': "list_all scorable (responses m (calls (tally_after t ?rs)) (all_items subs))"
    by (simp only: c)
  show ?case
    unfolding p v
    by (simp add: score_items_scorable [OF a] Cons.IH [OF w b'] c all_items_Cons items_of_def
        responses_append tally_after_append)
qed

lemma score_subcategories_returns:
  "score_subcategories m subs catres t = Inr x \<Longrightarrow>
   list_all (\<lambda>q. snd q \<noteq> NotAList) subs
   \<and> list_all scorable (responses m (calls t) (all_items subs))"
proof (induction subs arbitrary: catres t)
  case Nil
  then show ?case by (simp add: all_items_def)
next
  case (Cons p subs)
  obtain s v where p: "p = (s, v)" by (cases p)
  from Cons.prems p obtain xs where v: "v = Items xs" by (cases v) auto
  from Cons.prems obtain res t' where si: "score_items m xs [] t = Inr (res, t')"
    and rest: "score_subcategories m subs (AList.update s res catres) t' = Inr x"
    by (auto simp: p v split: sum.splits)
  from score_items_returns [OF si] have a: "list_all scorable (responses m (calls t) xs)" .
  from si have "t' = tally_after t (responses m (calls t) xs)"
    by (simp add: score_items_scorable [OF a])
  then have c: "calls t' = calls t + length xs" by (simp add: calls_tally_after length_responses)
  from Cons.IH [OF rest] a show ?case
    by (simp add: p v c all_items_Cons items_of_def responses_append)
qed

lemma score_subcategories_raises_500:
  "score_subcategories m subs catres t = Inl (RaisedHTTP h) \<Longrightarrow> \<exists>d. h = HTTPException 500 d"
  by (induction subs arbitrary: catres t)
     (auto split: items_value.splits sum.splits)


lemma items_of_categories_Cons:
  "items_of_categories ((c, v) # rest) = all_items (subcategories_of v) @ items_of_categories rest"
  by (simp add: items_of_categories_def)

lemma score_categories_skip:
  "score_categories m ((c, NotADict) # rest) st = score_categories m rest st"
  by simp



lemma score_categories_returns:
  "score_categories m cats st = Inr st' \<Longrightarrow>
   well_formed cats
   \<and> list_all scorable (responses m (calls (overall st)) (items_of_categories cats))"
proof (induction cats arbitrary: st)
  case Nil
  then show ?case by (simp add: well_formed_def items_of_categories_def)
next
  case (Cons p cats)
  obtain c v where p: "p = (c, v)" by (cases p)
  show ?case
  proof (cases v)
    case NotADict
    from Cons.prems have "score_categories m cats st = Inr st'" by (simp add: p NotADict)
    from Cons.IH [OF this] show ?thesis
      by (simp add: p NotADict well_formed_def items_of_categories_Cons subcategories_of_def all_items_def)
  next
    case (Subcategories subs)
    let ?u = "(overall st)\<lparr>category_score := 0, category_items := 0\<rparr>"
    from Cons.prems obtain cr t where ss: "score_subcategories m subs [] ?u = Inr (cr, t)"
      by (auto simp: p Subcategories split: sum.splits)
    from score_subcategories_returns [OF ss]
    have w: "list_all (\<lambda>q. snd q \<noteq> NotAList) subs"
      and a: "list_all scorable (responses m (calls ?u) (all_items subs))" by simp_all
    from ss have t: "t = tally_after ?u (responses m (calls ?u) (all_items subs))"
      by (simp add: score_subcategories_well_formed [OF w a])
    have c: "calls t = calls (overall st) + length (all_items subs)"
      by (simp add: t calls_tally_after length_responses)
    from Cons.prems ss obtain st1 where r: "score_categories m cats st1 = Inr st'"
      and o: "overall st1 = t"
      by (auto simp: p Subcategories)
    from Cons.IH [OF r] w a show ?thesis
      by (simp add: o c p Subcategories well_formed_def items_of_categories_Cons
          subcategories_of_def responses_append)
  qed
qed

lemma score_categories_raises_500:
  "score_categories m cats st = Inl (RaisedHTTP h) \<Longrightarrow> \<exists>d. h = HTTPException 500 d"
proof (induction cats arbitrary: st)
  case Nil
  then show ?case by simp
next
  case (Cons p cats)
  obtain c v where p: "p = (c, v)" by (cases p)
  show ?case
  proof (cases v)
    case NotADict
    with Cons p show ?thesis by simp
  next
    case (Subcategories subs)
    show ?thesis
    proof (cases "score_subcategories m subs [] ((overall st)\<lparr>category_score := 0, category_items := 0\<rparr>)")
      case (Inl e)
      with Cons.prems have "e = RaisedHTTP h" by (simp add: p Subcategories)
      with Inl score_subcategories_raises_500 show ?thesis by blast
    next
      case (Inr x)
      obtain cr t where x: "x = (cr, t)" by (cases x)
      from Cons.prems Inr x Cons.IH show ?thesis by (simp add: p Subcategories)
    qed
  qed
qed

lemma score_categories_skips:
  "score_categories m (xs @ (c, NotADict) # ys) st = score_categories m (xs @ ys) st"
proof (induction xs arbitrary: st)
  case Nil
  show ?case by simp
next
  case (Cons p xs)
  obtain c' v where p: "p = (c', v)" by (cases p)
  show ?case
    by (cases v) (simp_all add: p Cons.IH split: sum.splits prod.splits)
qed

lemma not_well_formed_iff:
  "(c, Subcategories subs) \<in> set cats \<Longrightarrow> (s, NotAList) \<in> set subs \<Longrightarrow> \<not> well_formed cats"
  by (force simp: well_formed_def list_all_iff subcategories_of_def)

lemma score_items_succeeds:
  "\<forall>k x. scorable (m k x) \<Longrightarrow> \<exists>r. score_items m items res t = Inr r"
proof -
  assume "\<forall>k x. scorable (m k x)"
  then have "list_all scorable (responses m n items)" for n
    by (induction items arbitrary: n) simp_all
  from score_items_scorable [OF this] show ?thesis by blast
qed



lemma score_items_result:
  "score_items m xs res t = Inr (r1, t1) \<Longrightarrow>
   r1 = AList.updates xs (map outcome_of (responses m (calls t) xs)) res
   \<and> t1 = tally_after t (responses m (calls t) xs)"
proof -
  assume a: "score_items m xs res t = Inr (r1, t1)"
  from score_items_scorable [OF score_items_returns [OF a], of res] a show ?thesis by simp
qed


lemma counted_scores_all_returned:
  "\<forall>r \<in> set rs. \<not> isl r \<Longrightarrow> length (counted_scores rs) = length rs"
  by (induction rs rule: counted_scores.induct) simp_all

lemma updates_keys:
  "length ks = length vs \<Longrightarrow> set (map fst (AList.updates ks vs [])) = set ks"
proof -
  assume l: "length ks = length vs"
  have "set (map fst (AList.updates ks vs [])) = dom (map_of (AList.updates ks vs []))"
    by (simp add: dom_map_of_conv_image_fst)
  also have "\<dots> = set ks" using l by (simp add: AList.updates_conv')
  finally show ?thesis .
qed


subsection \<open>The claims about the scorer\<close>






text \<open>
  C8. A category whose value is not a dictionary is passed over: the loop, and with it the
  request, gives what it gives without that category. A subcategory whose value is not a
  list raises an \<open>HTTPException\<close> with status 500 naming the subcategory, and a request
  that holds such a subcategory anywhere in a category that is a dictionary ends in an
  error response with status 500.
\<close>

theorem category_skipped_subcategory_aborts:
  "score_categories m (xs @ (c, NotADict) # ys) st = score_categories m (xs @ ys) st
   \<and> (xs @ ys \<noteq> [] \<longrightarrow>
        unified_match_endpoint m (Details (xs @ (c, NotADict) # ys)) resume
          = unified_match_endpoint m (Details (xs @ ys)) resume)
   \<and> score_subcategories m ((s, NotAList) # rest) cat_results t
        = Inl (RaisedHTTP (HTTPException 500 (invalid_items s)))
   \<and> (truthy resume \<and> (c', Subcategories subs) \<in> set cats \<and> (s', NotAList) \<in> set subs \<longrightarrow>
        (\<exists>d. unified_match_endpoint m (Details cats) resume = Inl (HTTPException 500 d)))"
proof -
  have c1: "score_categories m (xs @ (c, NotADict) # ys) st = score_categories m (xs @ ys) st"
    by (rule score_categories_skips)
  have c2: "xs @ ys \<noteq> [] \<longrightarrow>
        unified_match_endpoint m (Details (xs @ (c, NotADict) # ys)) resume
          = unified_match_endpoint m (Details (xs @ ys)) resume"
    by (simp add: unified_match_endpoint_def score_categories_skips)
  have c3: "score_subcategories m ((s, NotAList) # rest) cat_results t
        = Inl (RaisedHTTP (HTTPException 500 (invalid_items s)))"
    by simp
  have c4: "truthy resume \<and> (c', Subcategories subs) \<in> set cats \<and> (s', NotAList) \<in> set subs \<longrightarrow>
        (\<exists>d. unified_match_endpoint m (Details cats) resume = Inl (HTTPException 500 d))"
  proof
    assume a: "truthy resume \<and> (c', Subcategories subs) \<in> set cats \<and> (s', NotAList) \<in> set subs"
    then have nw: "\<not> well_formed cats" using not_well_formed_iff by blast
    from a have ne: "cats \<noteq> []" by auto
    let ?init = "\<lparr>matching_results = [], category_scores = [],
                      overall = \<lparr>category_score = 0, category_items = 0,
                                 total_score = 0, total_items = 0, calls = 0\<rparr>\<rparr>"
    show "\<exists>d. unified_match_endpoint m (Details cats) resume = Inl (HTTPException 500 d)"
    proof (cases "score_categories m cats ?init")
      case (Inr st')
      from score_categories_returns [OF Inr] nw show ?thesis by simp
    next
      case (Inl e)
      show ?thesis
      proof (cases e)
        case (RaisedHTTP h)
        with Inl score_categories_raises_500 obtain d where "h = HTTPException 500 d" by blast
        with Inl RaisedHTTP a ne show ?thesis by (simp add: unified_match_endpoint_def)
      next
        case (RaisedPy x)
        with Inl a ne show ?thesis by (simp add: unified_match_endpoint_def)
      qed
    qed
  qed
  show ?thesis
    by (intro conjI, rule c1, rule c2, rule c3, rule c4)
qed

text \<open>A request with a category that is a text beside a category of one item, and a
  request whose only subcategory is a text.\<close>

theorem category_skipped_subcategory_aborts_witness:
  "unified_match_endpoint (\<lambda>k item. Inr (JObj [(''match_level'', JStr ''Full match'')]))
     (Details [(''Notes'', NotADict),
               (''Skills'', Subcategories [(''Languages'', Items [''Python''])])])
     (JObj [(''name'', JStr ''A'')])
   = Inr \<lparr>message = ''Matching completed successfully.'',
       results_tree =
         [(''Skills'', [(''Languages'', [(''Python'', JObj [(''match_level'', JStr ''Full match'')])])])],
       scores_by_category = [(''Skills'', 1)],
       overall_score = 1\<rparr>
   \<and> (\<exists>d. unified_match_endpoint (\<lambda>k item. Inr (JObj [(''match_level'', JStr ''Full match'')]))
     (Details [(''Skills'', Subcategories [(''Languages'', NotAList)])])
     (JObj [(''name'', JStr ''A'')]) = Inl (HTTPException 500 d))"
proof -
  let ?m = "\<lambda>(k::nat) (item::string). (Inr (JObj [(''match_level'', JStr ''Full match'')]) :: string + json)"
  let ?r = "JObj [(''name'', JStr ''A'')]"
  have e: "unified_match_endpoint ?m
     (Details ([] @ [(''Skills'', Subcategories [(''Languages'', Items [''Python''])])])) ?r
   = Inr \<lparr>message = ''Matching completed successfully.'',
       results_tree =
         [(''Skills'', [(''Languages'', [(''Python'', JObj [(''match_level'', JStr ''Full match'')])])])],
       scores_by_category = [(''Skills'', 1)],
       overall_score = 1\<rparr>"
    by code_simp
  note t = category_skipped_subcategory_aborts
    [of ?m "[]" "''Notes''" "[(''Skills'', Subcategories [(''Languages'', Items [''Python''])])]"
        _ ?r _ _ _ _ "''Skills''" "[(''Languages'', NotAList)]"
        "[(''Skills'', Subcategories [(''Languages'', NotAList)])]" "''Languages''"]
  have tr: "truthy ?r" by (simp add: truthy_def)
  from t e have a: "unified_match_endpoint ?m
     (Details [(''Notes'', NotADict),
               (''Skills'', Subcategories [(''Languages'', Items [''Python''])])]) ?r
   = Inr \<lparr>message = ''Matching completed successfully.'',
       results_tree =
         [(''Skills'', [(''Languages'', [(''Python'', JObj [(''match_level'', JStr ''Full match'')])])])],
       scores_by_category = [(''Skills'', 1)],
       overall_score = 1\<rparr>"
    by simp
  from t tr have b: "\<exists>d. unified_match_endpoint ?m
     (Details [(''Skills'', Subcategories [(''Languages'', NotAList)])]) ?r = Inl (HTTPException 500 d)"
    by simp
  from a b show ?thesis by (rule conjI)
qed

text \<open>
  C10. The results of a subcategory are keyed by the item's text. After the item loop has
  run over a list of items, starting from an empty dictionary, the dictionary has one entry
  for each distinct text of the list, holding what the last occurrence of that text was
  given, while the item counters have grown by the number of matches that returned, one
  for every occurrence. So a list with a repeated text leaves fewer entries than it has
  items, and when every match returns, fewer entries than items counted.
\<close>

theorem results_keyed_by_item_text:
  assumes "score_items m items [] t = Inr (res', t')"
  shows "distinct (map fst res') \<and> set (map fst res') = set items
     \<and> map_of res' = map_of (rev (zip items (map outcome_of (responses m (calls t) items))))
     \<and> category_items t' = category_items t + length (counted_scores (responses m (calls t) items))
     \<and> total_items t' = total_items t + length (counted_scores (responses m (calls t) items))
     \<and> length res' \<le> length items
     \<and> (\<not> distinct items \<longrightarrow> length res' < length items)
     \<and> ((\<forall>r \<in> set (responses m (calls t) items). \<not> isl r) \<longrightarrow>
          category_items t' = category_items t + length items
          \<and> total_items t' = total_items t + length items)"
proof -
  let ?rs = "responses m (calls t) items"
  from score_items_result [OF assms]
  have r: "res' = AList.updates items (map outcome_of ?rs) []"
    and t': "t' = tally_after t ?rs" by simp_all
  have d: "distinct (map fst res')" unfolding r by (rule AList.distinct_updates) simp
  have k: "set (map fst res') = set items"
    unfolding r by (rule updates_keys) (simp add: length_responses)
  have mo: "map_of res' = map_of (rev (zip items (map outcome_of ?rs)))"
    unfolding r by (simp add: AList.updates_conv' map_upds_def)
  have ci: "category_items t' = category_items t + length (counted_scores ?rs)"
    and ti: "total_items t' = total_items t + length (counted_scores ?rs)"
    by (simp_all add: t' tally_after_def)
  have "length res' = card (set items)"
    using d k by (metis distinct_card length_map)
  then have le: "length res' \<le> length items"
    and lt: "\<not> distinct items \<longrightarrow> length res' < length items"
    using card_length [of items] card_distinct [of items] by (auto simp: le_less)
  have al: "(\<forall>r \<in> set ?rs. \<not> isl r) \<longrightarrow>
          category_items t' = category_items t + length items
          \<and> total_items t' = total_items t + length items"
    using counted_scores_all_returned [of ?rs] ci ti by (simp add: length_responses)
  show ?thesis
    by (intro conjI, rule d, rule k, rule mo, rule ci, rule ti, rule le, rule lt, rule al)
qed

text \<open>\<open>Python\<close> listed twice, the first time matched in part and the second time in full:
  one entry, the later one, and two items counted.\<close>

theorem results_keyed_by_item_text_witness:
  "score_items
     (\<lambda>k item. Inr (JObj [(''match_level'', JStr (if k = 0 then ''Partial match'' else ''Full match''))]))
     [''Python'', ''Python''] []
     \<lparr>category_score = 0, category_items = 0, total_score = 0, total_items = 0, calls = 0\<rparr>
   = Inr ([(''Python'', JObj [(''match_level'', JStr ''Full match'')])],
          \<lparr>category_score = 3 / 2, category_items = 2, total_score = 3 / 2, total_items = 2,
           calls = 2\<rparr>)
   \<and> length [(''Python'', JObj [(''match_level'', JStr ''Full match'')])]
       < length [''Python'', ''Python'']
   \<and> distinct (map fst [(''Python'', JObj [(''match_level'', JStr ''Full match'')])])"
proof -
  let ?m = "\<lambda>(k::nat) (item::string). (Inr (JObj [(''match_level'',
      JStr (if k = 0 then ''Partial match'' else ''Full match''))]) :: string + json)"
  have r: "score_items ?m [''Python'', ''Python''] []
     \<lparr>category_score = 0, category_items = 0, total_score = 0, total_items = 0, calls = 0\<rparr>
   = Inr ([(''Python'', JObj [(''match_level'', JStr ''Full match'')])],
          \<lparr>category_score = 3 / 2, category_items = 2, total_score = 3 / 2, total_items = 2,
           calls = 2\<rparr>)"
    by code_simp
  have nd: "\<not> distinct [''Python'', ''Python'']" by simp
  from results_keyed_by_item_text [OF r] nd
  have "length [(''Python'', JObj [(''match_level'', JStr ''Full match'')])]
       < length [''Python'', ''Python'']
     \<and> distinct (map fst [(''Python'', JObj [(''match_level'', JStr ''Full match'')])])"
    by blast
  with r show ?thesis by (intro conjI) simp_all
qed

section \<open>Properties of reading the model's reply\<close>

lemma startswith_brace: "startswith s ''{'' = (s \<noteq> [] \<and> hd s = CHR ''{'')"
  by (cases s) (simp_all add: startswith_def)

lemma endswith_brace: "endswith s ''}'' = (s \<noteq> [] \<and> last s = CHR ''}'')"
proof (cases "s = []")
  case True
  then show ?thesis by (simp add: endswith_def)
next
  case False
  then have "s = butlast s @ [last s]" by simp
  then have "drop (length s - 1) s = [last s]"
    by (metis append_eq_conv_conj length_butlast)
  with False show ?thesis by (auto simp: endswith_def Suc_le_eq)
qed

lemma checked_content_braced:
  "checked_content raw =
     (if braced (strip raw) then Inr (strip raw)
      else Inl (HTTPException 500 (ErrorOccurred 500 ''Invalid JSON response from OpenAI.'')))"
  by (auto simp: checked_content_def Let_def braced_def startswith_brace endswith_brace)

lemma split_trailing:
  "xs = rev (dropWhile P (rev xs)) @ rev (takeWhile P (rev xs))"
proof -
  have "rev (rev xs) = rev (takeWhile P (rev xs) @ dropWhile P (rev xs))"
    by (simp only: takeWhile_dropWhile_id)
  then show ?thesis by (simp only: rev_rev_ident rev_append)
qed

lemma strip_decomposition:
  "\<exists>a b. raw = a @ strip raw @ b \<and> list_all isspace a \<and> list_all isspace b"
proof -
  let ?d = "dropWhile isspace raw"
  have 1: "raw = takeWhile isspace raw @ ?d" by simp
  have 2: "?d = strip raw @ rev (takeWhile isspace (rev ?d))"
    unfolding strip_def by (rule split_trailing)
  have 3: "list_all isspace (takeWhile isspace raw)"
    by (auto simp: list_all_iff dest: set_takeWhileD)
  have 4: "list_all isspace (rev (takeWhile isspace (rev ?d)))"
    by (auto simp: list_all_iff dest: set_takeWhileD)
  from 1 2 have "raw = takeWhile isspace raw @ strip raw @ rev (takeWhile isspace (rev ?d))"
    by metis
  with 3 4 show ?thesis by blast
qed

lemma strip_ends:
  assumes "strip raw \<noteq> []"
  shows "\<not> isspace (hd (strip raw))" "\<not> isspace (last (strip raw))"
proof -
  let ?d = "dropWhile isspace raw"
  have d: "?d = strip raw @ rev (takeWhile isspace (rev ?d))"
    unfolding strip_def by (rule split_trailing)
  have ne: "?d \<noteq> []" using d assms by (metis append_is_Nil_conv)
  from d assms have "hd ?d = hd (strip raw)" by (metis hd_append2)
  moreover from ne have "\<not> isspace (hd ?d)" by (rule hd_dropWhile)
  ultimately show "\<not> isspace (hd (strip raw))" by simp
  from assms have n2: "dropWhile isspace (rev ?d) \<noteq> []" by (simp add: strip_def)
  then have "\<not> isspace (hd (dropWhile isspace (rev ?d)))" by (rule hd_dropWhile)
  moreover have "last (strip raw) = hd (dropWhile isspace (rev ?d))"
    using n2 by (simp add: strip_def last_rev)
  ultimately show "\<not> isspace (last (strip raw))" by simp
qed

text \<open>
  C9 (as corrected). Reading the reply for a resume trims the white space around it,
  answers with a 500 error when the trimmed text does not begin with \<open>{\<close> and end with
  \<open>}\<close>, and hands the trimmed text as it is to the JSON decoder: no quote is replaced, so
  a reply in single quotes reaches the decoder in single quotes, and it is the decoder's
  refusal that ends in a 500 error. \<open>not json\<close> ends in a 500 error response. Single
  quotes are replaced by double quotes only where the reply to a search query is read, and
  there the braces are not checked.
\<close>

theorem resume_reply_trimmed_checked_decoded:
  "(coerce_resume_response loads raw = Inr v) = (braced (strip raw) \<and> loads (strip raw) = Some v)
   \<and> (\<not> braced (strip raw) \<longrightarrow>
        coerce_resume_response loads raw
          = Inl (HTTPException 500 (ErrorOccurred 500 ''Invalid JSON response from OpenAI.'')))
   \<and> (braced (strip raw) \<and> loads (strip raw) = None \<longrightarrow>
        coerce_resume_response loads raw
          = Inl (HTTPException 500 (Detail ''Error parsing JSON response from OpenAI.'')))
   \<and> (\<exists>a b. raw = a @ strip raw @ b \<and> list_all isspace a \<and> list_all isspace b)
   \<and> (strip raw \<noteq> [] \<longrightarrow> \<not> isspace (hd (strip raw)) \<and> \<not> isspace (last (strip raw)))
   \<and> coerce_resume_response loads ''not json''
        = Inl (HTTPException 500 (ErrorOccurred 500 ''Invalid JSON response from OpenAI.''))
   \<and> coerce_resume_response loads ''  {\"a\": 'b'}  ''
        = (case loads ''{\"a\": 'b'}'' of
             None \<Rightarrow> Inl (HTTPException 500 (Detail ''Error parsing JSON response from OpenAI.''))
           | Some w \<Rightarrow> Inr w)
   \<and> (coerce_query_response loads raw = Inr v) = (loads (replace_quotes (strip raw)) = Some v)
   \<and> replace_quotes (strip ''  {\"a\": 'b'}  '') = ''{\"a\": \"b\"}''"
proof -
  have c1: "(coerce_resume_response loads raw = Inr v) = (braced (strip raw) \<and> loads (strip raw) = Some v)"
    by (auto simp: coerce_resume_response_def checked_content_braced split: option.splits)
  have c2: "\<not> braced (strip raw) \<longrightarrow>
        coerce_resume_response loads raw
          = Inl (HTTPException 500 (ErrorOccurred 500 ''Invalid JSON response from OpenAI.''))"
    by (simp add: coerce_resume_response_def checked_content_braced)
  have c3: "braced (strip raw) \<and> loads (strip raw) = None \<longrightarrow>
        coerce_resume_response loads raw
          = Inl (HTTPException 500 (Detail ''Error parsing JSON response from OpenAI.''))"
    by (simp add: coerce_resume_response_def checked_content_braced)
  have c4: "\<exists>a b. raw = a @ strip raw @ b \<and> list_all isspace a \<and> list_all isspace b"
    by (rule strip_decomposition)
  have c5: "strip raw \<noteq> [] \<longrightarrow> \<not> isspace (hd (strip raw)) \<and> \<not> isspace (last (strip raw))"
    using strip_ends by blast
  have s1: "strip ''not json'' = ''not json''" by code_simp
  have s2: "strip ''  {\"a\": 'b'}  '' = ''{\"a\": 'b'}''" by code_simp
  have c6: "coerce_resume_response loads ''not json''
        = Inl (HTTPException 500 (ErrorOccurred 500 ''Invalid JSON response from OpenAI.''))"
    by (simp add: coerce_resume_response_def checked_content_braced s1 braced_def)
  have c7: "coerce_resume_response loads ''  {\"a\": 'b'}  ''
        = (case loads ''{\"a\": 'b'}'' of
             None \<Rightarrow> Inl (HTTPException 500 (Detail ''Error parsing JSON response from OpenAI.''))
           | Some w \<Rightarrow> Inr w)"
    by (simp add: coerce_resume_response_def checked_content_braced s2 braced_def)
  have c8: "(coerce_query_response loads raw = Inr v) = (loads (replace_quotes (strip raw)) = Some v)"
    by (auto simp: coerce_query_response_def split: option.splits)
  have c9: "replace_quotes (strip ''  {\"a\": 'b'}  '') = ''{\"a\": \"b\"}''"
    unfolding s2 by code_simp
  show ?thesis
    by (intro conjI, rule c1, rule c2, rule c3, rule c4, rule c5, rule c6, rule c7, rule c8, rule c9)
qed

text \<open>The reply \<open>  {"a": 'b'}  \<close> passes the check of the braces and goes to the decoder
  with its single quotes; a decoder that refuses it, as \<open>json.loads\<close> does, makes the
  reading end in a 500 error, not in the object \<open>{"a": "b"}\<close>.\<close>

theorem single_quotes_not_replaced_counterexample:
  "checked_content ''  {\"a\": 'b'}  '' = Inr ''{\"a\": 'b'}''
   \<and> loads_sample ''{\"a\": \"b\"}'' = Some (JObj [(''a'', JStr ''b'')])
   \<and> coerce_resume_response loads_sample ''  {\"a\": 'b'}  ''
        = Inl (HTTPException 500 (Detail ''Error parsing JSON response from OpenAI.''))"
  by code_simp

text \<open>The reply \<open> {"a": "b"} \<close> in double quotes is read; the same decoder reads the
  reply in single quotes where the reply to a search query is read.\<close>

theorem resume_reply_trimmed_checked_decoded_witness:
  "braced (strip '' {\"a\": \"b\"} '')
   \<and> loads_sample (strip '' {\"a\": \"b\"} '') = Some (JObj [(''a'', JStr ''b'')])
   \<and> coerce_query_response loads_sample ''  {\"a\": 'b'}  '' = Inr (JObj [(''a'', JStr ''b'')])"
proof -
  have r: "coerce_resume_response loads_sample '' {\"a\": \"b\"} '' = Inr (JObj [(''a'', JStr ''b'')])"
    by code_simp
  have q: "coerce_query_response loads_sample ''  {\"a\": 'b'}  '' = Inr (JObj [(''a'', JStr ''b'')])"
    by code_simp
  from resume_reply_trimmed_checked_decoded
    [of loads_sample "'' {\"a\": \"b\"} ''" "JObj [(''a'', JStr ''b'')]"] r
  have "braced (strip '' {\"a\": \"b\"} '')
     \<and> loads_sample (strip '' {\"a\": \"b\"} '') = Some (JObj [(''a'', JStr ''b'')])"
    by blast
  with q show ?thesis by simp
qed

end
